theory Spec2Isabelle
  imports Main "HOL-Library.Word" "HOL-Library.Multiset"
begin

section \<open>The C library, as far as the version control system uses it\<close>

text \<open>
  C strings are modelled as \<open>string\<close> (a list of bytes) without the terminating NUL; a
  \<open>char[n]\<close> buffer holds a string of fewer than \<open>n\<close> bytes, none of them NUL.
  The integers of the program (\<open>int\<close>, \<open>long\<close>, \<open>time_t\<close>) are modelled as \<open>int\<close>
  with the 32-bit wrap-around written out where the program computes an \<open>int\<close>: C
  leaves signed overflow undefined, the model takes the two's complement result, and
  the theorems state the range in which no overflow happens.
  Pointer arguments are never NULL (every caller in \<open>main.c\<close> passes a live pointer), so
  the \<open>if (!repo || !filename)\<close> guards have no branch here.
\<close>

definition NL :: char where
  "NL = CHR 0x0A"

definition NUL :: char where
  "NUL = CHR 0x00"

definition BAR :: char where
  "BAR = CHR ''|''"

text \<open>What the string functions see of a buffer: the bytes before the first NUL.\<close>

definition c_str :: "string \<Rightarrow> string" where
  "c_str buf = takeWhile (\<lambda>c. c \<noteq> NUL) buf"

text \<open>\<open>strncpy(dst, src, n); dst[n] = '\0'\<close>: the first \<open>n\<close> bytes of the source.\<close>

definition strncpy :: "nat \<Rightarrow> string \<Rightarrow> string" where
  "strncpy n src = take n src"

text \<open>\<open>snprintf(buf, size, ...)\<close> keeps \<open>size - 1\<close> bytes of the formatted text.\<close>

definition snprintf :: "nat \<Rightarrow> string \<Rightarrow> string" where
  "snprintf n s = take (n - 1) s"

text \<open>\<open>strncmp(s, lit, strlen(lit)) == 0\<close>: \<open>s\<close> starts with the literal.\<close>

definition starts_with :: "string \<Rightarrow> string \<Rightarrow> bool" where
  "starts_with lit s = (take (length lit) s = lit)"

definition isspace :: "char \<Rightarrow> bool" where
  "isspace c = (c = CHR '' '' \<or> (9 \<le> (of_char c :: nat) \<and> (of_char c :: nat) \<le> 13))"

definition isdigit :: "char \<Rightarrow> bool" where
  "isdigit c = (48 \<le> (of_char c :: nat) \<and> (of_char c :: nat) \<le> 57)"

definition digit_val :: "char \<Rightarrow> nat" where
  "digit_val c = of_char c - 48"

definition digit_char :: "nat \<Rightarrow> char" where
  "digit_char d = ''0123456789'' ! d"

text \<open>The value of a run of decimal digits, most significant first.\<close>

definition digits_val :: "string \<Rightarrow> nat" where
  "digits_val ds = foldl (\<lambda>a c. 10 * a + digit_val c) 0 ds"

text \<open>
  What \<open>strtol(s, NULL, 10)\<close> reads: it skips white space, takes an optional sign and
  then the longest run of digits; anything after it is ignored and no digit at all
  gives 0. This is the number before it is fitted into a \<open>long\<close>.
\<close>

definition strtol_digits :: "string \<Rightarrow> int" where
  "strtol_digits s =
     (case dropWhile isspace s of
        [] \<Rightarrow> 0
      | c # r \<Rightarrow>
          if c = CHR ''-'' then - int (digits_val (takeWhile isdigit r))
          else if c = CHR ''+'' then int (digits_val (takeWhile isdigit r))
          else int (digits_val (takeWhile isdigit (c # r))))"

text \<open>
  \<open>strtol\<close> returns a \<open>long\<close> (64 bits): a number out of range becomes \<open>LONG_MAX\<close> or
  \<open>LONG_MIN\<close>. \<open>atol(s)\<close> is \<open>strtol(s, NULL, 10)\<close>, and \<open>atoi(s)\<close> is that value
  converted to \<open>int\<close>, which keeps the low 32 bits (\<open>int_cast\<close>).
\<close>

definition strtol :: "string \<Rightarrow> int" where
  "strtol s = max (- (2 ^ 63)) (min (2 ^ 63 - 1) (strtol_digits s))"

definition atol :: "string \<Rightarrow> int" where
  "atol s = strtol s"

definition int_cast :: "int \<Rightarrow> int" where
  "int_cast x = (x + 2 ^ 31) mod 2 ^ 32 - 2 ^ 31"

definition atoi :: "string \<Rightarrow> int" where
  "atoi s = int_cast (strtol s)"

text \<open>\<open>printf("%u")\<close> on a natural number and \<open>printf("%d")\<close>, \<open>printf("%ld")\<close>.\<close>

fun fmt_u :: "nat \<Rightarrow> string" where
  "fmt_u n = (if n < 10 then [digit_char n] else fmt_u (n div 10) @ [digit_char (n mod 10)])"

declare fmt_u.simps [simp del]

definition fmt_d :: "int \<Rightarrow> string" where
  "fmt_d i = (if i < 0 then CHR ''-'' # fmt_u (nat (- i)) else fmt_u (nat i))"

text \<open>\<open>printf("%08lx")\<close> on an \<open>unsigned long\<close> (64 bits): lower-case hexadecimal, padded with
  zeros to eight digits.\<close>

definition hex_char :: "nat \<Rightarrow> char" where
  "hex_char d = ''0123456789abcdef'' ! d"

fun fmt_x :: "nat \<Rightarrow> string" where
  "fmt_x n = (if n < 16 then [hex_char n] else fmt_x (n div 16) @ [hex_char (n mod 16)])"

declare fmt_x.simps [simp del]

definition fmt_08lx :: "64 word \<Rightarrow> string" where
  "fmt_08lx h = (let s = fmt_x (unat h) in replicate (8 - length s) (CHR ''0'') @ s)"

text \<open>The remainder of C's \<open>%\<close>, which truncates towards zero.\<close>

definition c_rem :: "int \<Rightarrow> int \<Rightarrow> int" where
  "c_rem a b = sgn a * (\<bar>a\<bar> mod \<bar>b\<bar>)"

text \<open>
  \<open>fgets(line, size, file)\<close> reads at most \<open>size - 1\<close> bytes and stops after a newline;
  at end of file it returns NULL. The result is the line and the unread rest.
\<close>

fun read_line :: "nat \<Rightarrow> string \<Rightarrow> string \<times> string" where
  "read_line n [] = ([], [])"
| "read_line n (c # cs) =
     (if n = 0 then ([], c # cs)
      else if c = NL then ([c], cs)
      else (case read_line (n - 1) cs of (l, r) \<Rightarrow> (c # l, r)))"

definition fgets :: "nat \<Rightarrow> string \<Rightarrow> (string \<times> string) option" where
  "fgets n s = (if s = [] \<or> n < 2 then None else Some (read_line (n - 1) s))"

text \<open>
  \<open>strtok(s, "|")\<close>: skip leading delimiters; NULL if nothing is left; otherwise the token
  runs to the next delimiter, and the scan resumes behind it. The second component is
  the saved position for \<open>strtok(NULL, "|")\<close>.
\<close>

definition strtok :: "string \<Rightarrow> string option \<times> string" where
  "strtok s =
     (let s1 = dropWhile (\<lambda>c. c = BAR) s in
      if s1 = [] then (None, [])
      else (Some (takeWhile (\<lambda>c. c \<noteq> BAR) s1), drop 1 (dropWhile (\<lambda>c. c \<noteq> BAR) s1)))"


section \<open>The data model of \<open>vcs.h\<close>\<close>

record FileVersion =
  filename :: string
  hash :: string
  version_number :: int
  timestamp :: int
  comment :: string
  file_size :: int

text \<open>The \<open>next\<close> pointers chain the records; the linked list is the HOL list, head first.\<close>

record Repository =
  base_path :: string
  total_versions :: int
  version_list :: "FileVersion list"

definition MAX_PATH_LEN :: nat where
  "MAX_PATH_LEN = 512"

definition MAX_FILENAME_LEN :: nat where
  "MAX_FILENAME_LEN = 256"

definition MAX_COMMENT_LEN :: nat where
  "MAX_COMMENT_LEN = 512"

definition MAX_HASH_LEN :: nat where
  "MAX_HASH_LEN = 64"

definition VCS_DIR :: string where
  "VCS_DIR = ''.vcs''"

definition METADATA_FILE :: string where
  "METADATA_FILE = ''versions.meta''"

section \<open>The environment: file system, clock and allocator\<close>

text \<open>
  The operating system is a state the program reads and changes. Regular files are a map
  from absolute paths to contents, directories a set of paths. \<open>unwritable\<close> holds the
  paths at which the system refuses to create a file or a directory (permissions, a
  missing parent, a read-only medium); \<open>quota\<close> bounds the bytes a file can take, so
  that a write can fall short. \<open>clock\<close> is what \<open>time(NULL)\<close> returns. \<open>malloc\<close>
  is an oracle: the \<open>nalloc\<close>-th request succeeds when \<open>heap_ok\<close> says so, and the
  block it returns holds the indeterminate contents \<open>garbage\<close>.
\<close>

record World =
  cwd :: string
  clock :: int
  files :: "string \<Rightarrow> string option"
  dirs :: "string set"
  unwritable :: "string set"
  quota :: "string \<Rightarrow> nat option"
  nalloc :: nat
  heap_ok :: "nat \<Rightarrow> bool"
  garbage :: "nat \<Rightarrow> FileVersion"

datatype errno = EEXIST | EACCES

text \<open>A relative path is resolved against the working directory.\<close>

definition abs_path :: "World \<Rightarrow> string \<Rightarrow> string" where
  "abs_path w p = (if take 1 p = ''/'' then p else cwd w @ ''/'' @ p)"

definition malloc :: "World \<Rightarrow> FileVersion option \<times> World" where
  "malloc w =
     ((if heap_ok w (nalloc w) then Some (garbage w (nalloc w)) else None),
      w\<lparr>nalloc := Suc (nalloc w)\<rparr>)"

definition mkdir :: "World \<Rightarrow> string \<Rightarrow> errno + World" where
  "mkdir w p =
     (let q = abs_path w p in
      if q \<in> dirs w \<or> files w q \<noteq> None then Inl EEXIST
      else if q \<in> unwritable w then Inl EACCES
      else Inr (w\<lparr>dirs := insert q (dirs w)\<rparr>))"

text \<open>
  \<open>fopen(path, "rb")\<close>: the stream is open when the path exists. A directory can be
  opened for reading too; every read from it then delivers nothing.
\<close>

definition fopen_r :: "World \<Rightarrow> string \<Rightarrow> bool" where
  "fopen_r w p = (files w (abs_path w p) \<noteq> None \<or> abs_path w p \<in> dirs w)"

text \<open>\<open>fopen(path, "w")\<close> creates the file or truncates it; a directory is refused.\<close>

definition fopen_w :: "World \<Rightarrow> string \<Rightarrow> World option" where
  "fopen_w w p =
     (let q = abs_path w p in
      if q \<in> unwritable w \<or> q \<in> dirs w then None
      else Some (w\<lparr>files := (files w)(q \<mapsto> [])\<rparr>))"

text \<open>The bytes a stream opened for reading delivers.\<close>

definition contents :: "World \<Rightarrow> string \<Rightarrow> string" where
  "contents w p = (case files w (abs_path w p) of None \<Rightarrow> [] | Some c \<Rightarrow> c)"

text \<open>\<open>fwrite\<close> and \<open>fprintf\<close> append to the open file and return the bytes that went in.\<close>

definition fwrite :: "World \<Rightarrow> string \<Rightarrow> string \<Rightarrow> nat \<times> World" where
  "fwrite w p data =
     (let q = abs_path w p;
          old = contents w p;
          room = (case quota w q of None \<Rightarrow> length data
                  | Some m \<Rightarrow> min (length data) (m - length old))
      in (room, w\<lparr>files := (files w)(q \<mapsto> old @ take room data)\<rparr>))"

definition fprintf :: "World \<Rightarrow> string \<Rightarrow> string \<Rightarrow> World" where
  "fprintf w p text = snd (fwrite w p text)"

text \<open>\<open>stat\<close>: the size of a regular file, or that the path is a directory.\<close>

datatype stat_result = Regular nat | Directory

definition stat :: "World \<Rightarrow> string \<Rightarrow> stat_result option" where
  "stat w p =
     (let q = abs_path w p in
      case files w q of
        Some c \<Rightarrow> Some (Regular (length c))
      | None \<Rightarrow> if q \<in> dirs w then Some Directory else None)"

text \<open>A directory's \<open>st_size\<close> is whatever the file system reports; one block here.\<close>

definition st_size :: "stat_result \<Rightarrow> nat" where
  "st_size st = (case st of Regular n \<Rightarrow> n | Directory \<Rightarrow> 4096)"

section \<open>\<open>utils.c\<close>\<close>

definition file_exists :: "World \<Rightarrow> string \<Rightarrow> bool" where
  "file_exists w filepath = (stat w filepath \<noteq> None)"


section \<open>\<open>metadata.c\<close>\<close>

definition metadata_path :: "Repository \<Rightarrow> string" where
  "metadata_path repo =
     snprintf MAX_PATH_LEN (base_path repo @ ''/'' @ VCS_DIR @ ''/'' @ METADATA_FILE)"

text \<open>The line \<open>save_metadata\<close> prints for one record.\<close>

definition record_line :: "FileVersion \<Rightarrow> string" where
  "record_line v =
     ''FILE='' @ filename v @ ''|VERSION='' @ fmt_d (version_number v) @
     ''|TIMESTAMP='' @ fmt_d (timestamp v) @ ''|SIZE='' @ fmt_d (file_size v) @
     ''|HASH='' @ hash v @ ''|COMMENT='' @ comment v @ [NL]"

definition save_metadata :: "World \<Rightarrow> Repository \<Rightarrow> World \<times> int" where
  "save_metadata w repo =
     (let p = metadata_path repo in
      case fopen_w w p of
        None \<Rightarrow> (w, - 1)
      | Some w1 \<Rightarrow>
          let w2 = fprintf w1 p (''# VCS Metadata File'' @ [NL]);
              w3 = fprintf w2 p (''TOTAL_VERSIONS='' @ fmt_d (total_versions repo) @ [NL]);
              w4 = fprintf w3 p ([NL] @ ''# File Versions'' @ [NL]);
              w5 = foldl (\<lambda>wa current. fprintf wa p (record_line current)) w4 (version_list repo)
          in (w5, 0))"

text \<open>One optional field of a \<open>FILE=\<close> line: the token must be there and carry the key.\<close>

definition field :: "string \<Rightarrow> string option \<Rightarrow> (string \<Rightarrow> FileVersion \<Rightarrow> FileVersion) \<Rightarrow>
    FileVersion \<Rightarrow> FileVersion" where
  "field key token store v =
     (case token of
        None \<Rightarrow> v
      | Some t \<Rightarrow> if starts_with key t then store (drop (length key) t) v else v)"

text \<open>
  The body of the \<open>FILE=\<close> branch, on the block \<open>malloc\<close> returned and the text behind
  \<open>FILE=\<close>. A field that is not found is not written: it keeps what the block held.
\<close>

definition parse_record :: "FileVersion \<Rightarrow> string \<Rightarrow> FileVersion" where
  "parse_record blk s =
     (case strtok s of (t1, s1) \<Rightarrow>
      case strtok s1 of (t2, s2) \<Rightarrow>
      case strtok s2 of (t3, s3) \<Rightarrow>
      case strtok s3 of (t4, s4) \<Rightarrow>
      case strtok s4 of (t5, s5) \<Rightarrow>
      case strtok s5 of (t6, s6) \<Rightarrow>
        field ''COMMENT='' t6
          (\<lambda>x v. v\<lparr>comment := takeWhile (\<lambda>c. c \<noteq> NL) (strncpy (MAX_COMMENT_LEN - 1) x)\<rparr>)
        (field ''HASH='' t5 (\<lambda>x v. v\<lparr>hash := strncpy (MAX_HASH_LEN - 1) x\<rparr>)
        (field ''SIZE='' t4 (\<lambda>x v. v\<lparr>file_size := atol x\<rparr>)
        (field ''TIMESTAMP='' t3 (\<lambda>x v. v\<lparr>timestamp := atol x\<rparr>)
        (field ''VERSION='' t2 (\<lambda>x v. v\<lparr>version_number := atoi x\<rparr>)
        (case t1 of
           None \<Rightarrow> blk
         | Some t \<Rightarrow> blk\<lparr>filename := strncpy (MAX_FILENAME_LEN - 1) t\<rparr>))))))"

text \<open>The body of the \<open>while (fgets ...)\<close> loop on one line.\<close>

definition load_line :: "World \<Rightarrow> Repository \<Rightarrow> string \<Rightarrow> World \<times> Repository" where
  "load_line w repo line =
     (if (case line of [] \<Rightarrow> False | c # _ \<Rightarrow> c = CHR ''#'' \<or> c = NL) then (w, repo)
      else if starts_with ''TOTAL_VERSIONS='' line
        then (w, repo\<lparr>total_versions := atoi (drop 15 line)\<rparr>)
      else if starts_with ''FILE='' line
        then (case malloc w of
                (None, w1) \<Rightarrow> (w1, repo)
              | (Some blk, w1) \<Rightarrow>
                  (w1, repo\<lparr>version_list := parse_record blk (drop 5 line) # version_list repo\<rparr>))
      else (w, repo))"

lemma read_line_shorter:
  "0 < n \<Longrightarrow> s \<noteq> [] \<Longrightarrow> read_line n s = (l, r) \<Longrightarrow> length r < length s"
proof (induction s arbitrary: n l r)
  case Nil
  then show ?case by simp
next
  case (Cons c cs)
  show ?case
  proof (cases "c = NL \<or> cs = [] \<or> n = 1")
    case True
    with Cons.prems show ?thesis
      by (cases cs) (auto split: if_splits prod.splits)
  next
    case False
    obtain l1 r1 where lr: "read_line (n - 1) cs = (l1, r1)"
      by (cases "read_line (n - 1) cs") auto
    from False Cons.prems have "0 < n - 1" and "cs \<noteq> []" by auto
    from Cons.IH [OF this lr] have "length r1 < length cs" .
    with Cons.prems False lr show ?thesis by (auto split: if_splits)
  qed
qed

lemma fgets_shorter: "fgets n s = Some (l, r) \<Longrightarrow> length r < length s"
proof -
  assume a: "fgets n s = Some (l, r)"
  then have "0 < n - 1" and "s \<noteq> []" and "read_line (n - 1) s = (l, r)"
    by (auto simp: fgets_def split: if_splits)
  then show ?thesis by (rule read_line_shorter)
qed

function load_loop :: "World \<Rightarrow> Repository \<Rightarrow> string \<Rightarrow> World \<times> Repository" where
  "load_loop w repo text =
     (case fgets 1024 text of
        None \<Rightarrow> (w, repo)
      | Some (buf, rest) \<Rightarrow>
          (case load_line w repo (c_str buf) of (w1, repo1) \<Rightarrow> load_loop w1 repo1 rest))"
  by pat_completeness auto
termination
  by (relation "measure (\<lambda>(w, repo, text). length text)") (auto dest: fgets_shorter)

declare load_loop.simps [simp del]

definition load_metadata :: "World \<Rightarrow> Repository \<Rightarrow> World \<times> Repository \<times> int" where
  "load_metadata w repo =
     (let p = metadata_path repo in
      if \<not> fopen_r w p then (w, repo, 0)
      else (case load_loop w repo (contents w p) of (w1, repo1) \<Rightarrow> (w1, repo1, 0)))"

fun find_loop :: "FileVersion list \<Rightarrow> string \<Rightarrow> int \<Rightarrow> FileVersion option" where
  "find_loop [] fname version = None"
| "find_loop (current # rest) fname version =
     (if filename current = fname \<and> version_number current = version then Some current
      else find_loop rest fname version)"

definition find_file_version :: "Repository \<Rightarrow> string \<Rightarrow> int \<Rightarrow> FileVersion option" where
  "find_file_version repo fname version = find_loop (version_list repo) fname version"

fun latest_loop :: "FileVersion list \<Rightarrow> string \<Rightarrow> int \<Rightarrow> int" where
  "latest_loop [] fname latest = latest"
| "latest_loop (current # rest) fname latest =
     latest_loop rest fname
       (if filename current = fname \<and> version_number current > latest
        then version_number current else latest)"

definition get_latest_version :: "Repository \<Rightarrow> string \<Rightarrow> int" where
  "get_latest_version repo fname = latest_loop (version_list repo) fname 0"


section \<open>\<open>fileops.c\<close>\<close>

text \<open>One round of djb2 on an \<open>unsigned long\<close>: \<open>((hash << 5) + hash) + c\<close>.\<close>

definition djb2_step :: "64 word \<Rightarrow> 64 word \<Rightarrow> 64 word" where
  "djb2_step h c = (push_bit 5 h + h) + c"

definition djb2 :: "string \<Rightarrow> 64 word" where
  "djb2 bytes = foldl (\<lambda>h c. djb2_step h (of_nat (of_char c))) 5381 bytes"

definition generate_file_hash :: "World \<Rightarrow> string \<Rightarrow> string option \<times> World" where
  "generate_file_hash w filepath =
     (if \<not> fopen_r w filepath then (None, w)
      else
        let h = djb2 (contents w filepath);
            h1 = (case stat w filepath of
                    Some st \<Rightarrow> djb2_step h (of_nat (st_size st))
                  | None \<Rightarrow> h)
        in case malloc w of
             (None, w1) \<Rightarrow> (None, w1)
           | (Some blk, w1) \<Rightarrow>
               (Some (snprintf MAX_HASH_LEN (fmt_08lx h1 @ fmt_d (c_rem (clock w) 10000))), w1))"

text \<open>The blocks \<open>fread\<close> delivers: \<open>n\<close> bytes each, the last one shorter.\<close>

function chunks :: "nat \<Rightarrow> string \<Rightarrow> string list" where
  "chunks n bytes =
     (if n = 0 \<or> bytes = [] then [] else take n bytes # chunks n (drop n bytes))"
  by pat_completeness auto
termination
  by (relation "measure (\<lambda>(n, bytes). length bytes)") auto

declare chunks.simps [simp del]

fun copy_loop :: "World \<Rightarrow> string \<Rightarrow> string list \<Rightarrow> World \<times> int" where
  "copy_loop w dest [] = (w, 0)"
| "copy_loop w dest (buffer # remaining) =
     (case fwrite w dest buffer of
        (written, w1) \<Rightarrow>
          if written \<noteq> length buffer then (w1, - 1) else copy_loop w1 dest remaining)"

text \<open>
  The source is read after the destination has been opened: when both name the same
  file, it has been truncated by then.
\<close>

definition copy_file :: "World \<Rightarrow> string \<Rightarrow> string \<Rightarrow> World \<times> int" where
  "copy_file w source dest =
     (if \<not> fopen_r w source then (w, - 1)
      else case fopen_w w dest of
             None \<Rightarrow> (w, - 1)
           | Some w1 \<Rightarrow> copy_loop w1 dest (chunks 4096 (contents w1 source)))"

text \<open>\<open>strrchr(filepath, '/')\<close> and the step behind it: the last component of the path.\<close>

definition base_name :: "string \<Rightarrow> string" where
  "base_name filepath = rev (takeWhile (\<lambda>c. c \<noteq> CHR ''/'') (rev filepath))"

definition version_dir_of :: "World \<Rightarrow> string \<Rightarrow> string" where
  "version_dir_of w filepath =
     snprintf MAX_PATH_LEN (cwd w @ ''/'' @ VCS_DIR @ ''/versions/'' @ base_name filepath)"

definition version_file_of :: "World \<Rightarrow> string \<Rightarrow> int \<Rightarrow> string" where
  "version_file_of w filepath version =
     snprintf MAX_PATH_LEN (version_dir_of w filepath @ ''/v'' @ fmt_d version)"

definition create_version_file :: "World \<Rightarrow> string \<Rightarrow> int \<Rightarrow> World \<times> int" where
  "create_version_file w filepath version =
     (case mkdir w (version_dir_of w filepath) of
        Inl e \<Rightarrow>
          if e \<noteq> EEXIST then (w, - 1)
          else copy_file w filepath (version_file_of w filepath version)
      | Inr w1 \<Rightarrow> copy_file w1 filepath (version_file_of w filepath version))"

definition restore_path :: "World \<Rightarrow> string \<Rightarrow> int \<Rightarrow> string" where
  "restore_path w fname version =
     snprintf MAX_PATH_LEN
       (cwd w @ ''/'' @ VCS_DIR @ ''/versions/'' @ fname @ ''/v'' @ fmt_d version)"

definition restore_version_file :: "World \<Rightarrow> string \<Rightarrow> int \<Rightarrow> World \<times> int" where
  "restore_version_file w fname version =
     (if \<not> file_exists w (restore_path w fname version) then (w, - 1)
      else copy_file w (restore_path w fname version) fname)"

section \<open>\<open>repo.c\<close>\<close>

definition init_repository :: "World \<Rightarrow> string \<Rightarrow> World \<times> int" where
  "init_repository w path =
     (let vcs_path = snprintf MAX_PATH_LEN (path @ ''/'' @ VCS_DIR) in
      case mkdir w vcs_path of
        Inl e \<Rightarrow> (w, - 1)
      | Inr w1 \<Rightarrow>
          let versions_path = snprintf MAX_PATH_LEN (vcs_path @ ''/versions'');
              temp_path = snprintf MAX_PATH_LEN (vcs_path @ ''/temp'')
          in case mkdir w1 versions_path of
               Inl e \<Rightarrow> (w1, - 1)
             | Inr w2 \<Rightarrow>
                 (case mkdir w2 temp_path of
                    Inl e \<Rightarrow> (w2, - 1)
                  | Inr w3 \<Rightarrow>
                      let metadata_path = snprintf MAX_PATH_LEN (vcs_path @ ''/'' @ METADATA_FILE)
                      in case fopen_w w3 metadata_path of
                           None \<Rightarrow> (w3, 0)
                         | Some w4 \<Rightarrow>
                             let w5 = fprintf w4 metadata_path (''# VCS Metadata File'' @ [NL]);
                                 w6 = fprintf w5 metadata_path (''TOTAL_VERSIONS=0'' @ [NL])
                             in (w6, 0)))"

definition load_repository :: "World \<Rightarrow> string \<Rightarrow> World \<times> Repository option" where
  "load_repository w path =
     (case malloc w of
        (None, w1) \<Rightarrow> (w1, None)
      | (Some blk, w1) \<Rightarrow>
          let repo = \<lparr>base_path = strncpy (MAX_PATH_LEN - 1) path, total_versions = 0,
                      version_list = []\<rparr>
          in case load_metadata w1 repo of
               (w2, repo1, rc) \<Rightarrow> if rc \<noteq> 0 then (w2, None) else (w2, Some repo1))"

definition repository_exists :: "World \<Rightarrow> string \<Rightarrow> bool" where
  "repository_exists w path =
     (stat w (snprintf MAX_PATH_LEN (path @ ''/'' @ VCS_DIR)) = Some Directory)"

section \<open>\<open>version.c\<close>\<close>

definition checkin_file :: "World \<Rightarrow> Repository \<Rightarrow> string \<Rightarrow> string \<Rightarrow>
    World \<times> Repository \<times> int" where
  "checkin_file w repo fname cmt =
     (let next_version = int_cast (get_latest_version repo fname + 1) in
      case create_version_file w fname next_version of
        (w1, rc) \<Rightarrow>
          if rc \<noteq> 0 then (w1, repo, - 1)
          else case malloc w1 of
                 (None, w2) \<Rightarrow> (w2, repo, - 1)
               | (Some blk, w2) \<Rightarrow>
                   (case generate_file_hash w2 fname of
                      (h, w3) \<Rightarrow>
                        let new_version = blk
                              \<lparr>filename := strncpy (MAX_FILENAME_LEN - 1) fname,
                               hash := (case h of
                                          Some hs \<Rightarrow> strncpy (MAX_HASH_LEN - 1) hs
                                        | None \<Rightarrow> ''unknown''),
                               version_number := next_version,
                               timestamp := clock w3,
                               comment := strncpy (MAX_COMMENT_LEN - 1) cmt,
                               file_size := (case stat w3 fname of
                                               Some st \<Rightarrow> int (st_size st)
                                             | None \<Rightarrow> 0)\<rparr>;
                            repo1 = repo
                              \<lparr>version_list := new_version # version_list repo,
                               total_versions := int_cast (total_versions repo + 1)\<rparr>
                        in case save_metadata w3 repo1 of
                             (w4, saved) \<Rightarrow> (w4, repo1, next_version)))"

text \<open>The operations return the repository with the world: it is the state they may change.\<close>

definition checkout_file :: "World \<Rightarrow> Repository \<Rightarrow> string \<Rightarrow> int \<Rightarrow>
    World \<times> Repository \<times> int" where
  "checkout_file w repo fname version =
     (case find_file_version repo fname version of
        None \<Rightarrow> (w, repo, - 1)
      | Some file_version \<Rightarrow>
          (case restore_version_file w fname version of (w1, rc) \<Rightarrow> (w1, repo, rc)))"

text \<open>
  A row of the table \<open>list_versions\<close> prints: version number, time stamp, size, the
  first twelve characters of the hash (\<open>%-12.12s\<close>), comment. The rows come out in the
  order of the traversal.
\<close>

type_synonym row = "int \<times> int \<times> int \<times> string \<times> string"

fun list_loop :: "FileVersion list \<Rightarrow> string \<Rightarrow> row list" where
  "list_loop [] fname = []"
| "list_loop (current # rest) fname =
     (if filename current = fname
      then (version_number current, timestamp current, file_size current,
            take 12 (hash current), comment current) # list_loop rest fname
      else list_loop rest fname)"

definition list_versions :: "Repository \<Rightarrow> string \<Rightarrow> row list \<times> int" where
  "list_versions repo fname =
     (let rows = list_loop (version_list repo) fname in
      if rows = [] then ([], - 1) else (rows, 0))"

definition rollback_to_version :: "World \<Rightarrow> Repository \<Rightarrow> string \<Rightarrow> int \<Rightarrow>
    World \<times> Repository \<times> int" where
  "rollback_to_version w repo fname version =
     (case find_file_version repo fname version of
        None \<Rightarrow> (w, repo, - 1)
      | Some file_version \<Rightarrow>
          (case restore_version_file w fname version of
             (w1, rc) \<Rightarrow>
               if rc \<noteq> 0 then (w1, repo, - 1)
               else
                 let rollback_comment =
                       snprintf MAX_COMMENT_LEN (''Rollback to version '' @ fmt_d version)
                 in case checkin_file w1 repo fname rollback_comment of
                      (w2, repo1, new_version) \<Rightarrow>
                        (w2, repo1, if new_version > 0 then 0 else - 1)))"


section \<open>Predicates and sample states used by the properties\<close>

text \<open>Between two worlds nothing differs except, possibly, the regular file at one path.\<close>

definition only_file_changed :: "World \<Rightarrow> World \<Rightarrow> string \<Rightarrow> bool" where
  "only_file_changed w w1 q =
     (cwd w1 = cwd w \<and> clock w1 = clock w \<and> dirs w1 = dirs w \<and> unwritable w1 = unwritable w \<and>
      quota w1 = quota w \<and> nalloc w1 = nalloc w \<and> heap_ok w1 = heap_ok w \<and>
      garbage w1 = garbage w \<and> (\<forall>p. p \<noteq> q \<longrightarrow> files w1 p = files w p))"


text \<open>
  A project in \<open>/p\<close> with one tracked file: \<open>a.txt\<close> was checked in once, its snapshot
  is stored as \<open>v1\<close>, and the working copy has been edited since.
\<close>

definition sample_block :: FileVersion where
  "sample_block = \<lparr>filename = ''?'', hash = ''?'', version_number = 42, timestamp = 42,
     comment = ''?'', file_size = 42\<rparr>"

definition sample_world :: World where
  "sample_world = \<lparr>cwd = ''/p'', clock = 100,
     files = [''/p/a.txt'' \<mapsto> ''hi'', ''/p/b.txt'' \<mapsto> ''other'',
              ''/p/.vcs/versions/a.txt/v1'' \<mapsto> ''old''],
     dirs = {''/p'', ''/p/.vcs'', ''/p/.vcs/versions'', ''/p/.vcs/versions/a.txt''},
     unwritable = {}, quota = (\<lambda>p. None), nalloc = 0, heap_ok = (\<lambda>n. True),
     garbage = (\<lambda>n. sample_block)\<rparr>"

definition sample_repo :: Repository where
  "sample_repo = \<lparr>base_path = ''/p'', total_versions = 1,
     version_list = [\<lparr>filename = ''a.txt'', hash = ''17c9bc5e750'', version_number = 1,
       timestamp = 50, comment = ''first'', file_size = 3\<rparr>]\<rparr>"

text \<open>A directory without a repository, where the metadata file cannot be created.\<close>

definition bare_world :: World where
  "bare_world = \<lparr>cwd = ''/q'', clock = 7, files = Map.empty, dirs = {''/q''},
     unwritable = {''/q/.vcs/versions.meta''}, quota = (\<lambda>p. None), nalloc = 0,
     heap_ok = (\<lambda>n. True), garbage = (\<lambda>n. sample_block)\<rparr>"

text \<open>The same project when \<open>versions.meta\<close> cannot be opened for writing.\<close>

definition unsaved_world :: World where
  "unsaved_world = sample_world\<lparr>unwritable := {''/p/.vcs/versions.meta''}\<rparr>"

text \<open>The same project with a metadata file whose only record line stops after the version.\<close>

definition partial_meta_world :: World where
  "partial_meta_world = sample_world
     \<lparr>files := (files sample_world)(''/p/.vcs/versions.meta'' \<mapsto> ''FILE=a.txt|VERSION=3'' @ [NL])\<rparr>"

definition fresh_repo :: Repository where
  "fresh_repo = \<lparr>base_path = ''/p'', total_versions = 0, version_list = []\<rparr>"

text \<open>The state after a second check-in of \<open>a.txt\<close> into the sample project.\<close>

definition two_repo :: Repository where
  "two_repo = \<lparr>base_path = ''/p'', total_versions = 2,
     version_list =
       [\<lparr>filename = ''a.txt'', hash = ''0b887ad8100'', version_number = 2,
           timestamp = 100, comment = ''second'', file_size = 2\<rparr>,
        \<lparr>filename = ''a.txt'', hash = ''17c9bc5e750'', version_number = 1,
           timestamp = 50, comment = ''first'', file_size = 3\<rparr>]\<rparr>"

definition two_meta :: string where
  "two_meta = ''# VCS Metadata File'' @ [NL] @ ''TOTAL_VERSIONS=2'' @ [NL] @ [NL] @
     ''# File Versions'' @ [NL] @
     ''FILE=a.txt|VERSION=2|TIMESTAMP=100|SIZE=2|HASH=0b887ad8100|COMMENT=second'' @ [NL] @
     ''FILE=a.txt|VERSION=1|TIMESTAMP=50|SIZE=3|HASH=17c9bc5e750|COMMENT=first'' @ [NL]"

definition two_world :: World where
  "two_world = sample_world
     \<lparr>files := (files sample_world)
        (''/p/.vcs/versions/a.txt/v2'' \<mapsto> ''hi'', ''/p/.vcs/versions.meta'' \<mapsto> two_meta),
      nalloc := 2\<rparr>"

text \<open>
  What the C types guarantee of a record in memory: each string fits its array and has
  no NUL inside, each number is in the range of its type.
\<close>

definition c_string :: "nat \<Rightarrow> string \<Rightarrow> bool" where
  "c_string n s = (length s < n \<and> NUL \<notin> set s)"

definition int_range :: "nat \<Rightarrow> int \<Rightarrow> bool" where
  "int_range bits x = (- (2 ^ (bits - 1)) \<le> x \<and> x < 2 ^ (bits - 1))"

definition valid_FileVersion :: "FileVersion \<Rightarrow> bool" where
  "valid_FileVersion v =
     (c_string MAX_FILENAME_LEN (filename v) \<and> c_string MAX_HASH_LEN (hash v) \<and>
      c_string MAX_COMMENT_LEN (comment v) \<and> int_range 32 (version_number v) \<and>
      int_range 64 (timestamp v) \<and> int_range 64 (file_size v))"

text \<open>
  A record that the line format can carry: the file name is not empty, and neither the
  delimiter nor a newline occurs in the file name or the hash, nor a newline in the
  comment. The format has no escaping.
\<close>

definition storable :: "FileVersion \<Rightarrow> bool" where
  "storable v =
     (valid_FileVersion v \<and> filename v \<noteq> [] \<and>
      BAR \<notin> set (filename v) \<and> NL \<notin> set (filename v) \<and>
      BAR \<notin> set (hash v) \<and> NL \<notin> set (hash v) \<and> NL \<notin> set (comment v))"

text \<open>The comment up to its first delimiter.\<close>

definition cut_comment :: "FileVersion \<Rightarrow> FileVersion" where
  "cut_comment v = v\<lparr>comment := takeWhile (\<lambda>c. c \<noteq> BAR) (comment v)\<rparr>"

text \<open>A record line without its newline.\<close>

definition line_body :: "FileVersion \<Rightarrow> string" where
  "line_body v =
     ''FILE='' @ filename v @ ''|VERSION='' @ fmt_d (version_number v) @
     ''|TIMESTAMP='' @ fmt_d (timestamp v) @ ''|SIZE='' @ fmt_d (file_size v) @
     ''|HASH='' @ hash v @ ''|COMMENT='' @ comment v"

text \<open>The text \<open>save_metadata\<close> writes when no write falls short.\<close>

definition meta_header :: "int \<Rightarrow> string" where
  "meta_header tv =
     (''# VCS Metadata File'' @ [NL]) @ (''TOTAL_VERSIONS='' @ fmt_d tv @ [NL]) @
     ([NL] @ ''# File Versions'' @ [NL])"

definition meta_text :: "Repository \<Rightarrow> string" where
  "meta_text repo =
     meta_header (total_versions repo) @ concat (map record_line (version_list repo))"

text \<open>The version numbers recorded for a file, in list order.\<close>

definition versions_of :: "FileVersion list \<Rightarrow> string \<Rightarrow> int list" where
  "versions_of vs fname = map version_number (filter (\<lambda>v. filename v = fname) vs)"

text \<open>
  A project whose working file is named \<open>a|b\<close>, before its first check-in, after it,
  and the repository a new process loads from the metadata file written by it.
\<close>

definition bar_world :: World where
  "bar_world = \<lparr>cwd = ''/p'', clock = 100, files = [''/p/a|b'' \<mapsto> ''hi''],
     dirs = {''/p'', ''/p/.vcs'', ''/p/.vcs/versions''},
     unwritable = {}, quota = (\<lambda>p. None), nalloc = 0, heap_ok = (\<lambda>n. True),
     garbage = (\<lambda>n. sample_block)\<rparr>"

definition bar_repo :: Repository where
  "bar_repo = \<lparr>base_path = ''/p'', total_versions = 1,
     version_list = [\<lparr>filename = ''a|b'', hash = ''0b887ad8100'', version_number = 1,
       timestamp = 100, comment = ''one'', file_size = 2\<rparr>]\<rparr>"

definition bar_saved_world :: World where
  "bar_saved_world = bar_world
     \<lparr>files := (files bar_world)
        (''/p/.vcs/versions/a|b/v1'' \<mapsto> ''hi'',
         ''/p/.vcs/versions.meta'' \<mapsto> ''# VCS Metadata File'' @ [NL] @ ''TOTAL_VERSIONS=1'' @ [NL] @
           [NL] @ ''# File Versions'' @ [NL] @
           ''FILE=a|b|VERSION=1|TIMESTAMP=100|SIZE=2|HASH=0b887ad8100|COMMENT=one'' @ [NL]),
      dirs := {''/p/.vcs/versions/a|b'', ''/p'', ''/p/.vcs'', ''/p/.vcs/versions''},
      nalloc := 2\<rparr>"

definition bar_loaded_repo :: Repository where
  "bar_loaded_repo = \<lparr>base_path = ''/p'', total_versions = 1,
     version_list = [sample_block\<lparr>filename := ''a''\<rparr>]\<rparr>"

text \<open>A history with one record whose comment has two lines.\<close>

definition newline_repo :: Repository where
  "newline_repo = \<lparr>base_path = ''/p'', total_versions = 1,
     version_list = [\<lparr>filename = ''a.txt'', hash = ''17c9bc5e750'', version_number = 1,
       timestamp = 50, comment = ''two'' @ [NL] @ ''lines'', file_size = 3\<rparr>]\<rparr>"

text \<open>The value that is printed in hexadecimal: djb2 over the bytes, then over the size.\<close>

definition content_hash :: "World \<Rightarrow> string \<Rightarrow> 64 word" where
  "content_hash w filepath =
     (case stat w filepath of
        Some st \<Rightarrow> djb2_step (djb2 (contents w filepath)) (of_nat (st_size st))
      | None \<Rightarrow> djb2 (contents w filepath))"



section \<open>Frame lemmas for the file operations\<close>

lemma only_file_changed_refl: "only_file_changed w w q"
  by (simp add: only_file_changed_def)

lemma only_file_changed_trans:
  "only_file_changed w w1 q \<Longrightarrow> only_file_changed w1 w2 q \<Longrightarrow> only_file_changed w w2 q"
  by (simp add: only_file_changed_def)

lemma abs_path_cwd: "cwd w1 = cwd w \<Longrightarrow> abs_path w1 p = abs_path w p"
  by (simp add: abs_path_def)

lemma fopen_w_frame: "fopen_w w p = Some w1 \<Longrightarrow> only_file_changed w w1 (abs_path w p)"
  by (auto simp: fopen_w_def only_file_changed_def Let_def split: if_splits)

lemma fwrite_frame: "fwrite w p d = (n, w1) \<Longrightarrow> only_file_changed w w1 (abs_path w p)"
  by (auto simp: fwrite_def only_file_changed_def Let_def)

lemma copy_loop_frame:
  "copy_loop w dest bs = (w1, rc) \<Longrightarrow> only_file_changed w w1 (abs_path w dest)"
proof (induction bs arbitrary: w)
  case Nil
  then show ?case by (simp add: only_file_changed_refl)
next
  case (Cons b bs)
  obtain n wa where fw: "fwrite w dest b = (n, wa)" by (cases "fwrite w dest b") auto
  from fwrite_frame [OF fw] have a: "only_file_changed w wa (abs_path w dest)" .
  then have c: "abs_path wa dest = abs_path w dest"
    by (intro abs_path_cwd) (simp add: only_file_changed_def)
  show ?case
  proof (cases "n = length b")
    case True
    with Cons.prems fw have "copy_loop wa dest bs = (w1, rc)" by simp
    from Cons.IH [OF this] c a show ?thesis by (auto intro: only_file_changed_trans)
  next
    case False
    with Cons.prems fw a show ?thesis by auto
  qed
qed

lemma copy_file_frame:
  "copy_file w source dest = (w1, rc) \<Longrightarrow> only_file_changed w w1 (abs_path w dest)"
proof -
  assume a: "copy_file w source dest = (w1, rc)"
  show ?thesis
  proof (cases "fopen_r w source")
    case False
    with a show ?thesis by (simp add: copy_file_def only_file_changed_refl)
  next
    case True
    show ?thesis
    proof (cases "fopen_w w dest")
      case None
      with a True show ?thesis by (simp add: copy_file_def only_file_changed_refl)
    next
      case (Some wa)
      from fopen_w_frame [OF Some] have b: "only_file_changed w wa (abs_path w dest)" .
      then have c: "abs_path wa dest = abs_path w dest"
        by (intro abs_path_cwd) (simp add: only_file_changed_def)
      from a True Some have "copy_loop wa dest (chunks 4096 (contents wa source)) = (w1, rc)"
        by (simp add: copy_file_def)
      from copy_loop_frame [OF this] b c show ?thesis
        by (auto intro: only_file_changed_trans)
    qed
  qed
qed

lemma restore_version_file_frame:
  "restore_version_file w fname version = (w1, rc) \<Longrightarrow>
     only_file_changed w w1 (abs_path w fname)"
  by (auto simp: restore_version_file_def only_file_changed_refl split: if_splits
           dest: copy_file_frame)


section \<open>Check-out\<close>

text \<open>
  Claim C9. \<open>checkout_file\<close> returns the repository it was given: History keeps its
  records, their order and their fields, whether the record is missing, the snapshot is
  missing, the copy fails or the copy succeeds. In the world, at most the regular file
  at the path of the working copy differs afterwards.
\<close>

theorem checkout_file_keeps_history:
  "fst (snd (checkout_file w repo fname version)) = repo \<and>
   only_file_changed w (fst (checkout_file w repo fname version)) (abs_path w fname)"
proof (cases "find_file_version repo fname version")
  case None
  then show ?thesis by (simp add: checkout_file_def only_file_changed_refl)
next
  case (Some fv)
  obtain w1 rc where r: "restore_version_file w fname version = (w1, rc)"
    by (cases "restore_version_file w fname version") auto
  from restore_version_file_frame [OF r] Some r show ?thesis
    by (simp add: checkout_file_def)
qed


theorem checkout_file_keeps_history_witness:
  "fst (snd (checkout_file sample_world sample_repo ''a.txt'' 1)) = sample_repo \<and>
   files (fst (checkout_file sample_world sample_repo ''a.txt'' 1)) ''/p/b.txt'' =
     files sample_world ''/p/b.txt''"
  using checkout_file_keeps_history [of sample_world sample_repo "''a.txt''" 1]
  by (simp add: only_file_changed_def abs_path_def sample_world_def)

section \<open>Opening a source that is missing\<close>

lemma file_exists_fopen_r: "\<not> file_exists w p \<Longrightarrow> \<not> fopen_r w p"
  by (auto simp: file_exists_def stat_def fopen_r_def Let_def split: option.splits)

lemma mkdir_Inr: "mkdir w p = Inr w1 \<Longrightarrow> w1 = w\<lparr>dirs := insert (abs_path w p) (dirs w)\<rparr>"
  by (auto simp: mkdir_def Let_def split: if_splits)

lemma fopen_r_mkdir:
  "mkdir w p = Inr w1 \<Longrightarrow> abs_path w q \<noteq> abs_path w p \<Longrightarrow> fopen_r w1 q = fopen_r w q"
  by (auto simp: fopen_r_def abs_path_def dest!: mkdir_Inr)

lemma create_version_file_missing:
  assumes "\<not> fopen_r w filepath"
    and "abs_path w filepath \<noteq> abs_path w (version_dir_of w filepath)"
  shows "snd (create_version_file w filepath version) = - 1 \<and>
         files (fst (create_version_file w filepath version)) = files w"
proof (cases "mkdir w (version_dir_of w filepath)")
  case (Inl e)
  with assms show ?thesis
    by (simp add: create_version_file_def copy_file_def)
next
  case (Inr w1)
  from fopen_r_mkdir [OF Inr assms(2)] assms(1) have "\<not> fopen_r w1 filepath" by simp
  moreover from mkdir_Inr [OF Inr] have "files w1 = files w" by simp
  ultimately show ?thesis using Inr
    by (simp add: create_version_file_def copy_file_def)
qed

text \<open>
  A missing source makes check-in fail, with the repository and every regular file
  untouched, as long as the source path is not the very directory that
  \<open>create_version_file\<close> makes for the snapshots of the file.
\<close>

lemma checkin_file_missing_source_elsewhere:
  assumes "\<not> file_exists w fname"
    and "abs_path w fname \<noteq> abs_path w (version_dir_of w fname)"
  shows "snd (snd (checkin_file w repo fname cmt)) = - 1 \<and>
         fst (snd (checkin_file w repo fname cmt)) = repo \<and>
         files (fst (checkin_file w repo fname cmt)) = files w"
proof -
  let ?next = "int_cast (get_latest_version repo fname + 1)"
  obtain w1 rc where c: "create_version_file w fname ?next = (w1, rc)"
    by (cases "create_version_file w fname ?next") auto
  from assms(1) have "\<not> fopen_r w fname" by (rule file_exists_fopen_r)
  from create_version_file_missing [OF this assms(2), of ?next] c
  have "rc = - 1" and "files w1 = files w" by simp_all
  with c show ?thesis by (simp add: checkin_file_def)
qed

section \<open>Initialising a repository\<close>

text \<open>
  Claim C10. Once the control directory, \<open>versions\<close> and \<open>temp\<close> have been created,
  \<open>init_repository\<close> returns 0, whatever happens to the metadata file; when
  \<open>versions.meta\<close> cannot be opened for writing, nothing is written and the result is
  still 0.
\<close>

theorem init_repository_ignores_metadata_failure:
  assumes "mkdir w (snprintf MAX_PATH_LEN (path @ ''/'' @ VCS_DIR)) = Inr w1"
    and "mkdir w1 (snprintf MAX_PATH_LEN (snprintf MAX_PATH_LEN (path @ ''/'' @ VCS_DIR) @ ''/versions'')) = Inr w2"
    and "mkdir w2 (snprintf MAX_PATH_LEN (snprintf MAX_PATH_LEN (path @ ''/'' @ VCS_DIR) @ ''/temp'')) = Inr w3"
  shows "snd (init_repository w path) = 0 \<and>
         (fopen_w w3 (snprintf MAX_PATH_LEN
             (snprintf MAX_PATH_LEN (path @ ''/'' @ VCS_DIR) @ ''/'' @ METADATA_FILE)) = None
          \<longrightarrow> init_repository w path = (w3, 0))"
  using assms by (simp add: init_repository_def Let_def split: option.splits)

theorem init_repository_ignores_metadata_failure_witness:
  "init_repository bare_world ''/q'' =
     (bare_world\<lparr>dirs := {''/q/.vcs/temp'', ''/q/.vcs/versions'', ''/q/.vcs'', ''/q''}\<rparr>, 0)"
proof -
  let ?w1 = "bare_world\<lparr>dirs := {''/q/.vcs'', ''/q''}\<rparr>"
  let ?w2 = "bare_world\<lparr>dirs := {''/q/.vcs/versions'', ''/q/.vcs'', ''/q''}\<rparr>"
  let ?w3 = "bare_world\<lparr>dirs := {''/q/.vcs/temp'', ''/q/.vcs/versions'', ''/q/.vcs'', ''/q''}\<rparr>"
  have 1: "mkdir bare_world (snprintf MAX_PATH_LEN (''/q'' @ ''/'' @ VCS_DIR)) = Inr ?w1"
    by (simp add: mkdir_def snprintf_def MAX_PATH_LEN_def VCS_DIR_def abs_path_def bare_world_def)
  have 2: "mkdir ?w1 (snprintf MAX_PATH_LEN (snprintf MAX_PATH_LEN (''/q'' @ ''/'' @ VCS_DIR) @ ''/versions'')) = Inr ?w2"
    by (simp add: mkdir_def snprintf_def MAX_PATH_LEN_def VCS_DIR_def abs_path_def bare_world_def)
  have 3: "mkdir ?w2 (snprintf MAX_PATH_LEN (snprintf MAX_PATH_LEN (''/q'' @ ''/'' @ VCS_DIR) @ ''/temp'')) = Inr ?w3"
    by (simp add: mkdir_def snprintf_def MAX_PATH_LEN_def VCS_DIR_def abs_path_def bare_world_def)
  have 4: "fopen_w ?w3 (snprintf MAX_PATH_LEN
             (snprintf MAX_PATH_LEN (''/q'' @ ''/'' @ VCS_DIR) @ ''/'' @ METADATA_FILE)) = None"
    by (simp add: fopen_w_def snprintf_def MAX_PATH_LEN_def VCS_DIR_def METADATA_FILE_def abs_path_def bare_world_def)
  from init_repository_ignores_metadata_failure [OF 1 2 3] 4 show ?thesis by simp
qed

section \<open>Printing and reading decimal numbers\<close>

lemma below_ten_cases:
  "d < (10::nat) \<Longrightarrow> d = 0 \<or> d = 1 \<or> d = 2 \<or> d = 3 \<or> d = 4 \<or> d = 5 \<or> d = 6 \<or> d = 7 \<or> d = 8 \<or> d = 9"
  by arith

lemma digit_char_isdigit: "d < 10 \<Longrightarrow> isdigit (digit_char d)"
  by (drule below_ten_cases) (auto simp: digit_char_def isdigit_def)

lemma digit_val_digit_char: "d < 10 \<Longrightarrow> digit_val (digit_char d) = d"
  by (drule below_ten_cases) (auto simp: digit_char_def digit_val_def)

lemma isdigit_plain:
  "isdigit c \<Longrightarrow> c \<noteq> BAR \<and> c \<noteq> NL \<and> c \<noteq> NUL \<and> c \<noteq> CHR ''-'' \<and> c \<noteq> CHR ''+'' \<and> \<not> isspace c"
  by (auto simp: isdigit_def isspace_def BAR_def NL_def NUL_def)

lemma fmt_u_digits: "c \<in> set (fmt_u n) \<Longrightarrow> isdigit c"
proof (induction n arbitrary: c rule: fmt_u.induct)
  case (1 n)
  show ?case
  proof (cases "n < 10")
    case True
    with "1.prems" show ?thesis
      by (simp add: fmt_u.simps [of n] digit_char_isdigit)
  next
    case False
    with "1.prems" have "c \<in> set (fmt_u (n div 10)) \<or> c = digit_char (n mod 10)"
      by (auto simp: fmt_u.simps [of n])
    with False "1.IH" show ?thesis
      by (auto simp: digit_char_isdigit)
  qed
qed

lemma fmt_u_nonempty: "fmt_u n \<noteq> []"
  by (simp add: fmt_u.simps [of n])

lemma digits_val_snoc: "digits_val (ds @ [c]) = 10 * digits_val ds + digit_val c"
  by (simp add: digits_val_def)

lemma digits_val_fmt_u: "digits_val (fmt_u n) = n"
proof (induction n rule: fmt_u.induct)
  case (1 n)
  show ?case
  proof (cases "n < 10")
    case True
    then show ?thesis
      by (simp add: fmt_u.simps [of n] digits_val_def digit_val_digit_char)
  next
    case False
    with "1.IH" have "digits_val (fmt_u (n div 10)) = n div 10" by simp
    with False show ?thesis
      by (simp add: fmt_u.simps [of n] digits_val_snoc digit_val_digit_char)
  qed
qed

lemma takeWhile_isdigit_fmt_u: "takeWhile isdigit (fmt_u n) = fmt_u n"
  by (simp add: takeWhile_eq_all_conv fmt_u_digits)

lemma strtol_digits_fmt_d: "strtol_digits (fmt_d i) = i"
proof (cases "i < 0")
  case True
  then show ?thesis
    by (simp add: strtol_digits_def fmt_d_def isspace_def takeWhile_isdigit_fmt_u digits_val_fmt_u)
next
  case False
  obtain c r where cr: "fmt_u (nat i) = c # r"
    using fmt_u_nonempty [of "nat i"] by (cases "fmt_u (nat i)") auto
  then have "c \<in> set (fmt_u (nat i))" by simp
  then have "isdigit c" by (rule fmt_u_digits)
  then have c: "c \<noteq> CHR ''-''" "c \<noteq> CHR ''+''" "\<not> isspace c"
    using isdigit_plain by blast+
  have "takeWhile isdigit (c # r) = c # r"
    using takeWhile_isdigit_fmt_u [of "nat i"] cr by simp
  moreover have "digits_val (c # r) = nat i"
    using digits_val_fmt_u [of "nat i"] cr by simp
  ultimately show ?thesis using False c cr
    by (simp add: strtol_digits_def fmt_d_def)
qed

lemma fmt_d_inj: "fmt_d a = fmt_d b \<longleftrightarrow> a = b"
  by (metis strtol_digits_fmt_d)

lemma atol_fmt_d: "int_range 64 i \<Longrightarrow> atol (fmt_d i) = i"
  by (simp add: atol_def strtol_def strtol_digits_fmt_d int_range_def)

lemma atoi_fmt_d: "int_range 32 i \<Longrightarrow> atoi (fmt_d i) = i"
  by (simp add: atoi_def int_cast_def strtol_def strtol_digits_fmt_d int_range_def)

lemma fmt_d_plain: "c \<in> set (fmt_d i) \<Longrightarrow> c \<noteq> BAR \<and> c \<noteq> NL \<and> c \<noteq> NUL"
proof -
  assume "c \<in> set (fmt_d i)"
  then have "c = CHR ''-'' \<or> isdigit c"
    by (auto simp: fmt_d_def dest: fmt_u_digits split: if_splits)
  then show ?thesis
    using isdigit_plain [of c] by (auto simp: BAR_def NL_def NUL_def)
qed

lemma length_fmt_u: "0 < k \<Longrightarrow> n < 10 ^ k \<Longrightarrow> length (fmt_u n) \<le> k"
proof (induction k arbitrary: n)
  case 0
  then show ?case by simp
next
  case (Suc k)
  show ?case
  proof (cases "n < 10")
    case True
    then show ?thesis by (simp add: fmt_u.simps [of n])
  next
    case False
    with Suc.prems have k: "0 < k" by (cases k) auto
    from Suc.prems have "n div 10 < 10 ^ k" by (simp add: less_mult_imp_div_less mult.commute)
    from Suc.IH [OF k this] False show ?thesis by (simp add: fmt_u.simps [of n])
  qed
qed

lemma length_fmt_d: "0 < k \<Longrightarrow> \<bar>i\<bar> < 10 ^ k \<Longrightarrow> length (fmt_d i) \<le> Suc k"
proof -
  assume k: "0 < k" and i: "\<bar>i\<bar> < 10 ^ k"
  have "nat \<bar>i\<bar> < 10 ^ k"
    using i by (metis nat_less_iff abs_ge_zero of_nat_numeral of_nat_power)
  from length_fmt_u [OF k this] show ?thesis
    by (auto simp: fmt_d_def abs_if split: if_splits)
qed

section \<open>Reading back one record line\<close>

lemma takeWhile_until: "x \<notin> set xs \<Longrightarrow> takeWhile (\<lambda>c. c \<noteq> x) (xs @ x # r) = xs"
  by (induction xs) auto

lemma dropWhile_until: "x \<notin> set xs \<Longrightarrow> dropWhile (\<lambda>c. c \<noteq> x) (xs @ x # r) = x # r"
  by (induction xs) auto

lemma takeWhile_all: "x \<notin> set xs \<Longrightarrow> takeWhile (\<lambda>c. c \<noteq> x) xs = xs"
  by (induction xs) auto

lemma strtok_token:
  "tok \<noteq> [] \<Longrightarrow> BAR \<notin> set tok \<Longrightarrow> strtok (tok @ BAR # rest) = (Some tok, rest)"
proof -
  assume ne: "tok \<noteq> []" and nb: "BAR \<notin> set tok"
  then obtain c cs where tok: "tok = c # cs" and c: "c \<noteq> BAR"
    by (cases tok) auto
  have t: "takeWhile (\<lambda>c. c \<noteq> BAR) (tok @ BAR # rest) = tok"
    using nb by (rule takeWhile_until)
  have d: "dropWhile (\<lambda>c. c \<noteq> BAR) (tok @ BAR # rest) = BAR # rest"
    using nb by (rule dropWhile_until)
  have "dropWhile (\<lambda>c. c = BAR) (tok @ BAR # rest) = tok @ BAR # rest"
    using tok c by simp
  with t d ne show ?thesis by (simp add: strtok_def)
qed

lemma strtok_last:
  "c \<noteq> BAR \<Longrightarrow> fst (strtok (c # cs)) = Some (takeWhile (\<lambda>c. c \<noteq> BAR) (c # cs))"
  by (simp add: strtok_def)

lemma field_found: "field key (Some (key @ x)) store v = store x v"
  by (simp add: field_def starts_with_def)

lemma comment_back:
  assumes "NL \<notin> set c" and "length c < 512"
  shows "takeWhile (\<lambda>x. x \<noteq> NL) (take 511 (takeWhile (\<lambda>x. x \<noteq> BAR) (c @ [NL]))) =
         takeWhile (\<lambda>x. x \<noteq> BAR) c"
proof (cases "BAR \<in> set c")
  case True
  then have a: "takeWhile (\<lambda>x. x \<noteq> BAR) (c @ [NL]) = takeWhile (\<lambda>x. x \<noteq> BAR) c"
    by (simp add: takeWhile_append1)
  have "length (takeWhile (\<lambda>x. x \<noteq> BAR) c) \<le> length c" by (rule length_takeWhile_le)
  with assms have b: "take 511 (takeWhile (\<lambda>x. x \<noteq> BAR) c) = takeWhile (\<lambda>x. x \<noteq> BAR) c"
    by simp
  have "\<And>x. x \<in> set (takeWhile (\<lambda>x. x \<noteq> BAR) c) \<Longrightarrow> x \<noteq> NL"
    using assms(1) by (auto dest: set_takeWhileD)
  then have "takeWhile (\<lambda>x. x \<noteq> NL) (takeWhile (\<lambda>x. x \<noteq> BAR) c) = takeWhile (\<lambda>x. x \<noteq> BAR) c"
    by (intro takeWhile_all) auto
  with a b show ?thesis by simp
next
  case False
  then have a: "takeWhile (\<lambda>x. x \<noteq> BAR) (c @ [NL]) = c @ [NL]"
    by (intro takeWhile_all) (simp add: BAR_def NL_def)
  from False have b: "takeWhile (\<lambda>x. x \<noteq> BAR) c = c"
    by (rule takeWhile_all)
  have m: "takeWhile (\<lambda>x. x \<noteq> NL) (take 511 (c @ [NL])) = c"
  proof (cases "length c = 511")
    case True
    with assms(1) show ?thesis by (simp add: takeWhile_all)
  next
    case False
    with assms(2) have "take 511 (c @ [NL]) = c @ [NL]" by simp
    with assms(1) show ?thesis by (simp add: takeWhile_until)
  qed
  show ?thesis unfolding a b by (rule m)
qed

lemma record_line_tokens:
  "record_line v =
     ''FILE='' @ filename v @ BAR # (''VERSION='' @ fmt_d (version_number v)) @
     BAR # (''TIMESTAMP='' @ fmt_d (timestamp v)) @ BAR # (''SIZE='' @ fmt_d (file_size v)) @
     BAR # (''HASH='' @ hash v) @ BAR # ''COMMENT='' @ comment v @ [NL]"
  by (simp add: record_line_def BAR_def)

lemma keyed_token: "BAR \<notin> set key \<Longrightarrow> BAR \<notin> set x \<Longrightarrow> key \<noteq> [] \<Longrightarrow>
    strtok ((key @ x) @ BAR # rest) = (Some (key @ x), rest)"
  by (rule strtok_token) auto

lemma fmt_d_no_bar: "BAR \<notin> set (fmt_d i)"
  using fmt_d_plain by blast

lemma parse_record_record_line:
  assumes "storable v"
  shows "parse_record blk (drop 5 (record_line v)) = cut_comment v"
proof -
  from assms have fn: "filename v \<noteq> []" "BAR \<notin> set (filename v)"
    and hs: "BAR \<notin> set (hash v)" and cm: "NL \<notin> set (comment v)"
    and len: "length (filename v) < 256" "length (hash v) < 64" "length (comment v) < 512"
    and rng: "int_range 32 (version_number v)" "int_range 64 (timestamp v)"
      "int_range 64 (file_size v)"
    by (simp_all add: storable_def valid_FileVersion_def c_string_def MAX_FILENAME_LEN_def
          MAX_HASH_LEN_def MAX_COMMENT_LEN_def)
  let ?s5 = "''COMMENT='' @ comment v @ [NL]"
  let ?s4 = "(''HASH='' @ hash v) @ BAR # ?s5"
  let ?s3 = "(''SIZE='' @ fmt_d (file_size v)) @ BAR # ?s4"
  let ?s2 = "(''TIMESTAMP='' @ fmt_d (timestamp v)) @ BAR # ?s3"
  let ?s1 = "(''VERSION='' @ fmt_d (version_number v)) @ BAR # ?s2"
  have d: "drop 5 (record_line v) = filename v @ BAR # ?s1"
    by (simp add: record_line_tokens)
  have t1: "strtok (filename v @ BAR # ?s1) = (Some (filename v), ?s1)"
    using fn by (rule strtok_token)
  have t2: "strtok ?s1 = (Some (''VERSION='' @ fmt_d (version_number v)), ?s2)"
    by (rule keyed_token) (simp_all add: BAR_def fmt_d_no_bar [unfolded BAR_def])
  have t3: "strtok ?s2 = (Some (''TIMESTAMP='' @ fmt_d (timestamp v)), ?s3)"
    by (rule keyed_token) (simp_all add: BAR_def fmt_d_no_bar [unfolded BAR_def])
  have t4: "strtok ?s3 = (Some (''SIZE='' @ fmt_d (file_size v)), ?s4)"
    by (rule keyed_token) (simp_all add: BAR_def fmt_d_no_bar [unfolded BAR_def])
  have t5: "strtok ?s4 = (Some (''HASH='' @ hash v), ?s5)"
    by (rule keyed_token) (use hs in \<open>simp_all add: BAR_def\<close>)
  have t6: "fst (strtok ?s5) =
      Some (''COMMENT='' @ takeWhile (\<lambda>c. c \<noteq> BAR) (comment v @ [NL]))"
    by (simp add: strtok_def BAR_def)
  obtain s6 where t6': "strtok ?s5 =
      (Some (''COMMENT='' @ takeWhile (\<lambda>c. c \<noteq> BAR) (comment v @ [NL])), s6)"
    using t6 by (cases "strtok ?s5") auto
  have "parse_record blk (filename v @ BAR # ?s1) =
     blk\<lparr>filename := take 255 (filename v), version_number := atoi (fmt_d (version_number v)),
         timestamp := atol (fmt_d (timestamp v)), file_size := atol (fmt_d (file_size v)),
         hash := take 63 (hash v),
         comment := takeWhile (\<lambda>c. c \<noteq> NL)
           (take 511 (takeWhile (\<lambda>c. c \<noteq> BAR) (comment v @ [NL])))\<rparr>"
    by (simp only: parse_record_def t1 t2 t3 t4 t5 t6' prod.case option.case field_found)
       (simp add: strncpy_def MAX_FILENAME_LEN_def MAX_HASH_LEN_def MAX_COMMENT_LEN_def)
  also have "\<dots> = cut_comment v"
    using len cm rng by (simp add: atoi_fmt_d atol_fmt_d comment_back cut_comment_def)
  finally show ?thesis using d by simp
qed

section \<open>Reading back the lines of a saved history\<close>

lemma read_line_line:
  "NL \<notin> set body \<Longrightarrow> length body < n \<Longrightarrow> read_line n (body @ NL # rest) = (body @ [NL], rest)"
  by (induction body arbitrary: n) auto

lemma fgets_line:
  "NL \<notin> set body \<Longrightarrow> length body < 1023 \<Longrightarrow>
     fgets 1024 (body @ NL # rest) = Some (body @ [NL], rest)"
  by (simp add: fgets_def read_line_line)

lemma c_str_plain: "NUL \<notin> set s \<Longrightarrow> c_str s = s"
  unfolding c_str_def by (rule takeWhile_all)

lemma load_loop_step:
  assumes "NL \<notin> set body" and "length body < 1023" and "NUL \<notin> set body"
    and "load_line w repo (body @ [NL]) = (w1, repo1)"
  shows "load_loop w repo (body @ NL # rest) = load_loop w1 repo1 rest"
proof -
  have "NUL \<notin> set (body @ [NL])" using assms(3) by (simp add: NUL_def NL_def)
  then have "c_str (body @ [NL]) = body @ [NL]" by (rule c_str_plain)
  with assms show ?thesis
    by (simp add: load_loop.simps [of w repo "body @ NL # rest"] fgets_line)
qed

lemma load_loop_end: "load_loop w repo [] = (w, repo)"
  by (simp add: load_loop.simps [of w repo "[]"] fgets_def)

lemma int_range_32_abs: "int_range 32 x \<Longrightarrow> \<bar>x\<bar> < 10 ^ 10"
  by (simp add: int_range_def abs_less_iff)

lemma int_range_64_abs: "int_range 64 x \<Longrightarrow> \<bar>x\<bar> < 10 ^ 19"
  by (simp add: int_range_def abs_less_iff)

lemma length_fmt_d_32: "int_range 32 x \<Longrightarrow> length (fmt_d x) \<le> 11"
  using length_fmt_d [of 10 x] int_range_32_abs [of x] by simp

lemma length_fmt_d_64: "int_range 64 x \<Longrightarrow> length (fmt_d x) \<le> 20"
  using length_fmt_d [of 19 x] int_range_64_abs [of x] by simp

lemma record_line_body: "record_line v = line_body v @ [NL]"
  by (simp add: record_line_def line_body_def)

lemma fmt_d_no_nl: "NL \<notin> set (fmt_d i)"
  using fmt_d_plain by blast

lemma fmt_d_no_nul: "NUL \<notin> set (fmt_d i)"
  using fmt_d_plain by blast

lemma line_body_plain:
  assumes "storable v"
  shows "NL \<notin> set (line_body v)" and "NUL \<notin> set (line_body v)" and "length (line_body v) < 1023"
proof -
  from assms have nl: "NL \<notin> set (filename v)" "NL \<notin> set (hash v)" "NL \<notin> set (comment v)"
    and nul: "NUL \<notin> set (filename v)" "NUL \<notin> set (hash v)" "NUL \<notin> set (comment v)"
    and len: "length (filename v) < 256" "length (hash v) < 64" "length (comment v) < 512"
    and rng: "int_range 32 (version_number v)" "int_range 64 (timestamp v)"
      "int_range 64 (file_size v)"
    by (simp_all add: storable_def valid_FileVersion_def c_string_def MAX_FILENAME_LEN_def
          MAX_HASH_LEN_def MAX_COMMENT_LEN_def)
  show "NL \<notin> set (line_body v)"
    using nl fmt_d_no_nl by (simp add: line_body_def) (simp add: NL_def)
  show "NUL \<notin> set (line_body v)"
    using nul fmt_d_no_nul by (simp add: line_body_def) (simp add: NUL_def)
  from rng have "length (fmt_d (version_number v)) \<le> 11" "length (fmt_d (timestamp v)) \<le> 20"
    "length (fmt_d (file_size v)) \<le> 20"
    by (simp_all add: length_fmt_d_32 length_fmt_d_64)
  with len show "length (line_body v) < 1023"
    by (simp add: line_body_def)
qed

lemma load_line_record_line:
  assumes "storable v" and "heap_ok w (nalloc w)"
  shows "load_line w repo (record_line v) =
     (w\<lparr>nalloc := Suc (nalloc w)\<rparr>, repo\<lparr>version_list := cut_comment v # version_list repo\<rparr>)"
proof -
  have a: "\<not> (case record_line v of [] \<Rightarrow> False | c # _ \<Rightarrow> c = CHR ''#'' \<or> c = NL)"
    by (simp add: record_line_def NL_def)
  have b: "\<not> starts_with ''TOTAL_VERSIONS='' (record_line v)"
    by (simp add: record_line_def starts_with_def)
  have c: "starts_with ''FILE='' (record_line v)"
    by (simp add: record_line_def starts_with_def)
  from assms(2) have m: "malloc w = (Some (garbage w (nalloc w)), w\<lparr>nalloc := Suc (nalloc w)\<rparr>)"
    by (simp add: malloc_def)
  show ?thesis
    unfolding load_line_def
    by (simp only: a b c m if_True if_False prod.case option.case
          parse_record_record_line [OF assms(1)])
qed

lemma load_loop_records:
  assumes "list_all storable vs" and "\<forall>k. heap_ok w k"
  shows "load_loop w repo (concat (map record_line vs)) =
     (w\<lparr>nalloc := nalloc w + length vs\<rparr>,
      repo\<lparr>version_list := rev (map cut_comment vs) @ version_list repo\<rparr>)"
  using assms
proof (induction vs arbitrary: w repo)
  case Nil
  then show ?case by (simp add: load_loop_end)
next
  case (Cons v vs)
  from Cons.prems have st: "storable v" and rest: "list_all storable vs" by simp_all
  let ?w1 = "w\<lparr>nalloc := Suc (nalloc w)\<rparr>"
  let ?r1 = "repo\<lparr>version_list := cut_comment v # version_list repo\<rparr>"
  from Cons.prems have "heap_ok w (nalloc w)" by simp
  with st have ll: "load_line w repo (line_body v @ [NL]) = (?w1, ?r1)"
    by (simp add: load_line_record_line [symmetric] record_line_body)
  have e: "concat (map record_line (v # vs)) = line_body v @ NL # concat (map record_line vs)"
    by (simp add: record_line_body)
  have s: "load_loop w repo (line_body v @ NL # concat (map record_line vs)) =
        load_loop ?w1 ?r1 (concat (map record_line vs))"
    using line_body_plain [OF st] ll by (intro load_loop_step) simp_all
  from Cons.prems have "\<forall>k. heap_ok ?w1 k" by simp
  from Cons.IH [OF rest this, of ?r1] show ?case
    unfolding e s by simp
qed

section \<open>Saving a history and loading it again\<close>

lemma takeWhile_isdigit_stop:
  "\<not> isdigit x \<Longrightarrow> takeWhile isdigit (fmt_u n @ x # r) = fmt_u n"
  by (simp add: takeWhile_append2 fmt_u_digits)

lemma strtol_digits_fmt_d_stop:
  assumes "\<not> isdigit x"
  shows "strtol_digits (fmt_d i @ x # r) = i"
proof (cases "i < 0")
  case True
  with assms show ?thesis
    by (simp add: strtol_digits_def fmt_d_def isspace_def takeWhile_isdigit_stop digits_val_fmt_u)
next
  case False
  obtain c cs where cr: "fmt_u (nat i) = c # cs"
    using fmt_u_nonempty [of "nat i"] by (cases "fmt_u (nat i)") auto
  then have "c \<in> set (fmt_u (nat i))" by simp
  then have "isdigit c" by (rule fmt_u_digits)
  then have c: "c \<noteq> CHR ''-''" "c \<noteq> CHR ''+''" "\<not> isspace c"
    using isdigit_plain by blast+
  have "takeWhile isdigit (c # cs @ x # r) = c # cs"
    using takeWhile_isdigit_stop [OF assms, of "nat i" r] cr by simp
  moreover have "digits_val (c # cs) = nat i"
    using digits_val_fmt_u [of "nat i"] cr by simp
  ultimately show ?thesis using False c cr
    by (simp add: strtol_digits_def fmt_d_def)
qed

lemma atoi_fmt_d_stop: "int_range 32 i \<Longrightarrow> \<not> isdigit x \<Longrightarrow> atoi (fmt_d i @ x # r) = i"
  by (simp add: atoi_def int_cast_def strtol_def strtol_digits_fmt_d_stop int_range_def)

lemma load_loop_header:
  assumes "int_range 32 tv"
  shows "load_loop w repo (meta_header tv @ rest) =
         load_loop w (repo\<lparr>total_versions := tv\<rparr>) rest"
proof -
  let ?l2 = "''TOTAL_VERSIONS='' @ fmt_d tv"
  let ?r3 = "NL # ''# File Versions'' @ NL # rest"
  have len: "length (fmt_d tv) \<le> 11" using assms by (rule length_fmt_d_32)
  have 1: "load_loop w repo (''# VCS Metadata File'' @ NL # ?l2 @ NL # ?r3) =
           load_loop w repo (?l2 @ NL # ?r3)"
    by (rule load_loop_step) (simp_all add: NL_def NUL_def load_line_def)
  have n2: "NL \<notin> set ?l2" "NUL \<notin> set ?l2"
    using fmt_d_no_nl [of tv] fmt_d_no_nul [of tv] by (simp_all add: NL_def NUL_def)
  have l2: "load_line w repo (?l2 @ [NL]) = (w, repo\<lparr>total_versions := tv\<rparr>)"
    using assms by (simp add: load_line_def starts_with_def atoi_fmt_d_stop isdigit_def NL_def)
  have 2: "load_loop w repo (?l2 @ NL # ?r3) =
           load_loop w (repo\<lparr>total_versions := tv\<rparr>) ?r3"
    using n2 len l2 by (intro load_loop_step) simp_all
  have 3: "load_loop w (repo\<lparr>total_versions := tv\<rparr>) ([] @ NL # ''# File Versions'' @ NL # rest) =
           load_loop w (repo\<lparr>total_versions := tv\<rparr>) (''# File Versions'' @ NL # rest)"
    by (rule load_loop_step) (simp_all add: load_line_def)
  have 4: "load_loop w (repo\<lparr>total_versions := tv\<rparr>) (''# File Versions'' @ NL # rest) =
           load_loop w (repo\<lparr>total_versions := tv\<rparr>) rest"
    by (rule load_loop_step) (simp_all add: NL_def NUL_def load_line_def)
  have "meta_header tv @ rest = ''# VCS Metadata File'' @ NL # ?l2 @ NL # ?r3"
    by (simp add: meta_header_def)
  with 1 2 3 4 show ?thesis by simp
qed

lemma load_loop_meta_text:
  assumes "int_range 32 (total_versions repo)" and "list_all storable (version_list repo)"
    and "\<forall>k. heap_ok w k"
  shows "load_loop w (repo\<lparr>total_versions := 0, version_list := []\<rparr>) (meta_text repo) =
     (w\<lparr>nalloc := nalloc w + length (version_list repo)\<rparr>,
      repo\<lparr>version_list := rev (map cut_comment (version_list repo))\<rparr>)"
  unfolding meta_text_def
  by (simp add: load_loop_header [OF assms(1)] load_loop_records [OF assms(2,3)])

lemma abs_path_files: "abs_path (w\<lparr>files := f\<rparr>) p = abs_path w p"
  by (simp add: abs_path_def)

lemma contents_written: "contents (w\<lparr>files := f(abs_path w p \<mapsto> x)\<rparr>) p = x"
  by (simp add: contents_def abs_path_files)

lemma fprintf_unbounded:
  "quota w (abs_path w p) = None \<Longrightarrow>
     fprintf w p t = w\<lparr>files := (files w)(abs_path w p \<mapsto> contents w p @ t)\<rparr>"
  by (simp add: fprintf_def fwrite_def Let_def)

lemma fprintf_records:
  assumes "quota w (abs_path w p) = None" and "files w (abs_path w p) = Some old"
  shows "foldl (\<lambda>wa current. fprintf wa p (record_line current)) w vs =
         w\<lparr>files := (files w)(abs_path w p \<mapsto> old @ concat (map record_line vs))\<rparr>"
  using assms
proof (induction vs arbitrary: w old)
  case Nil
  then have "(files w)(abs_path w p \<mapsto> old) = files w" by (simp add: fun_upd_idem)
  then show ?case by simp
next
  case (Cons v vs)
  let ?q = "abs_path w p"
  let ?w1 = "w\<lparr>files := (files w)(?q \<mapsto> old @ record_line v)\<rparr>"
  have f: "fprintf w p (record_line v) = ?w1"
    using Cons.prems by (simp add: fprintf_unbounded contents_def)
  have a: "abs_path ?w1 p = ?q" by (rule abs_path_files)
  have "foldl (\<lambda>wa current. fprintf wa p (record_line current)) w (v # vs) =
        foldl (\<lambda>wa current. fprintf wa p (record_line current)) ?w1 vs"
    using f by simp
  also have "\<dots> = ?w1\<lparr>files := (files ?w1)(abs_path ?w1 p \<mapsto>
        (old @ record_line v) @ concat (map record_line vs))\<rparr>"
    by (rule Cons.IH) (use Cons.prems a in simp_all)
  also have "\<dots> = w\<lparr>files := (files w)(?q \<mapsto> old @ concat (map record_line (v # vs)))\<rparr>"
    unfolding a by simp
  finally show ?case .
qed

lemma save_metadata_text:
  assumes "save_metadata w repo = (w1, 0)"
    and "quota w (abs_path w (metadata_path repo)) = None"
  shows "w1 = w\<lparr>files := (files w)(abs_path w (metadata_path repo) \<mapsto> meta_text repo)\<rparr>"
proof -
  let ?p = "metadata_path repo"
  let ?q = "abs_path w ?p"
  from assms(1) obtain wa where o: "fopen_w w ?p = Some wa"
    by (cases "fopen_w w ?p") (auto simp: save_metadata_def)
  then have wa: "wa = w\<lparr>files := (files w)(?q \<mapsto> [])\<rparr>"
    by (auto simp: fopen_w_def Let_def split: if_splits)
  let ?h1 = "''# VCS Metadata File'' @ [NL]"
  let ?h2 = "''TOTAL_VERSIONS='' @ fmt_d (total_versions repo) @ [NL]"
  let ?h3 = "[NL] @ ''# File Versions'' @ [NL]"
  let ?w4 = "w\<lparr>files := (files w)(?q \<mapsto> ?h1 @ ?h2 @ ?h3)\<rparr>"
  let ?w2 = "w\<lparr>files := (files w)(?q \<mapsto> ?h1)\<rparr>"
  let ?w3 = "w\<lparr>files := (files w)(?q \<mapsto> ?h1 @ ?h2)\<rparr>"
  have h1: "fprintf wa ?p ?h1 = ?w2"
    using assms(2) unfolding wa
    by (simp add: fprintf_unbounded abs_path_files contents_written)
  have h2: "fprintf ?w2 ?p ?h2 = ?w3"
    using assms(2) by (simp add: fprintf_unbounded abs_path_files contents_written)
  have h3: "fprintf ?w3 ?p ?h3 = ?w4"
    using assms(2) by (simp add: fprintf_unbounded abs_path_files contents_written)
  have h: "fprintf (fprintf (fprintf wa ?p ?h1) ?p ?h2) ?p ?h3 = ?w4"
    unfolding h1 h2 h3 ..
  have q4: "abs_path ?w4 ?p = ?q" by (rule abs_path_files)
  have "foldl (\<lambda>wa current. fprintf wa ?p (record_line current)) ?w4 (version_list repo) =
        ?w4\<lparr>files := (files ?w4)(abs_path ?w4 ?p \<mapsto>
               (?h1 @ ?h2 @ ?h3) @ concat (map record_line (version_list repo)))\<rparr>"
    by (rule fprintf_records) (use assms(2) q4 in simp_all)
  with assms(1) o h show ?thesis
    unfolding q4 by (simp add: save_metadata_def Let_def meta_text_def meta_header_def)
qed

lemma load_metadata_meta_text:
  assumes "files w (abs_path w (metadata_path repo)) = Some (meta_text repo)"
    and "int_range 32 (total_versions repo)" and "list_all storable (version_list repo)"
    and "\<forall>k. heap_ok w k"
  shows "load_metadata w (repo\<lparr>total_versions := 0, version_list := []\<rparr>) =
     (w\<lparr>nalloc := nalloc w + length (version_list repo)\<rparr>,
      repo\<lparr>version_list := rev (map cut_comment (version_list repo))\<rparr>, 0)"
proof -
  have p: "metadata_path (repo\<lparr>total_versions := 0, version_list := []\<rparr>) = metadata_path repo"
    by (simp add: metadata_path_def)
  from assms(1) have "fopen_r w (metadata_path repo)"
    and "contents w (metadata_path repo) = meta_text repo"
    by (simp_all add: fopen_r_def contents_def)
  then show ?thesis
    by (simp add: load_metadata_def p load_loop_meta_text [OF assms(2,3,4)])
qed

section \<open>Version numbers\<close>

lemma latest_loop_fold: "latest_loop vs fname a = fold max (versions_of vs fname) a"
  by (induction vs arbitrary: a) (auto simp: versions_of_def max_def)

lemma latest_loop_Max: "latest_loop vs fname a = Max (set (a # versions_of vs fname))"
  by (simp only: latest_loop_fold Max.set_eq_fold)

lemma versions_of_map_cut: "versions_of (map cut_comment vs) fname = versions_of vs fname"
  by (induction vs) (simp_all add: versions_of_def cut_comment_def)

lemma versions_of_rev: "versions_of (rev vs) fname = rev (versions_of vs fname)"
  by (simp add: versions_of_def rev_filter rev_map)

lemma versions_of_cut:
  "set (versions_of (rev (map cut_comment vs)) fname) = set (versions_of vs fname)"
  by (simp add: versions_of_rev versions_of_map_cut)

lemma get_latest_version_reloaded:
  "get_latest_version (repo\<lparr>version_list := rev (map cut_comment (version_list repo))\<rparr>) fname =
   get_latest_version repo fname"
  by (simp add: get_latest_version_def latest_loop_Max versions_of_cut)

lemma get_latest_version_nonneg: "0 \<le> get_latest_version repo fname"
  by (simp add: get_latest_version_def latest_loop_Max)

lemma get_latest_version_untracked:
  "\<forall>v \<in> set (version_list repo). filename v \<noteq> fname \<Longrightarrow> get_latest_version repo fname = 0"
proof -
  assume "\<forall>v \<in> set (version_list repo). filename v \<noteq> fname"
  then have "versions_of (version_list repo) fname = []"
    by (auto simp: versions_of_def filter_empty_conv)
  then show ?thesis by (simp add: get_latest_version_def latest_loop_Max)
qed

lemma get_latest_version_prepend:
  assumes "filename nv = fname" and "version_number nv = get_latest_version repo fname + 1"
  shows "get_latest_version (repo\<lparr>version_list := nv # version_list repo,
           total_versions := t\<rparr>) fname = get_latest_version repo fname + 1"
proof -
  let ?S = "set (versions_of (version_list repo) fname)"
  let ?L = "Max (insert 0 ?S)"
  have L: "get_latest_version repo fname = ?L"
    by (simp add: get_latest_version_def latest_loop_Max)
  have "versions_of (nv # version_list repo) fname = (?L + 1) # versions_of (version_list repo) fname"
    using assms L by (simp add: versions_of_def)
  then have "get_latest_version (repo\<lparr>version_list := nv # version_list repo,
           total_versions := t\<rparr>) fname = Max (insert 0 (insert (?L + 1) ?S))"
    by (simp add: get_latest_version_def latest_loop_Max)
  also have "\<dots> = Max (insert (?L + 1) (insert 0 ?S))"
    by (simp add: insert_commute)
  also have "\<dots> = max (?L + 1) ?L"
    by (rule Max_insert) simp_all
  finally show ?thesis using L by simp
qed

lemma get_latest_version_other:
  "filename nv \<noteq> fname \<Longrightarrow>
     get_latest_version (repo\<lparr>version_list := nv # version_list repo, total_versions := t\<rparr>) fname =
     get_latest_version repo fname"
  by (simp add: get_latest_version_def)

lemma int_cast_range: "int_range 32 x \<Longrightarrow> int_cast x = x"
  by (simp add: int_cast_def int_range_def)

lemma next_version_fits:
  "get_latest_version repo fname < 2 ^ 31 - 1 \<Longrightarrow>
     int_cast (get_latest_version repo fname + 1) = get_latest_version repo fname + 1"
  using get_latest_version_nonneg [of repo fname]
  by (intro int_cast_range) (simp add: int_range_def)

text \<open>What a successful check-in has done to the repository.\<close>

lemma checkin_file_success:
  assumes "checkin_file w repo fname cmt = (w1, repo1, n)" and "n \<noteq> - 1"
  shows "n = int_cast (get_latest_version repo fname + 1) \<and>
         (\<exists>nv. repo1 = repo\<lparr>version_list := nv # version_list repo,
                              total_versions := int_cast (total_versions repo + 1)\<rparr> \<and>
               filename nv = strncpy (MAX_FILENAME_LEN - 1) fname \<and>
               version_number nv = n \<and>
               comment nv = strncpy (MAX_COMMENT_LEN - 1) cmt)"
proof -
  let ?next = "int_cast (get_latest_version repo fname + 1)"
  obtain wa rc where c: "create_version_file w fname ?next = (wa, rc)"
    by (cases "create_version_file w fname ?next") auto
  obtain blk wb where m: "malloc wa = (blk, wb)" by (cases "malloc wa") auto
  obtain h wc where g: "generate_file_hash wb fname = (h, wc)"
    by (cases "generate_file_hash wb fname") auto
  from assms c have rc: "rc = 0"
    by (auto simp: checkin_file_def Let_def split: if_splits)
  with assms c m obtain b where b: "blk = Some b"
    by (cases blk) (auto simp: checkin_file_def Let_def)
  from assms c rc m b g show ?thesis
    by (auto simp: checkin_file_def Let_def split: prod.splits)
qed

section \<open>The round trip through the metadata file\<close>

lemma cut_comment_plain: "BAR \<notin> set (comment v) \<Longrightarrow> cut_comment v = v"
  by (simp add: cut_comment_def takeWhile_all)

lemma map_cut_comment_plain:
  "list_all (\<lambda>v. BAR \<notin> set (comment v)) vs \<Longrightarrow> map cut_comment vs = vs"
  by (induction vs) (simp_all add: cut_comment_plain)

lemma save_metadata_result:
  "snd (save_metadata w repo) = (if fopen_w w (metadata_path repo) = None then - 1 else 0)"
  by (auto simp: save_metadata_def Let_def)

lemma load_after_save:
  assumes "list_all storable (version_list repo)" and "int_range 32 (total_versions repo)"
    and "save_metadata w repo = (w1, 0)"
    and "quota w (abs_path w (metadata_path repo)) = None"
    and "files w2 (abs_path w2 (metadata_path repo)) = files w1 (abs_path w1 (metadata_path repo))"
    and "\<forall>k. heap_ok w2 k"
  shows "load_metadata w2 (repo\<lparr>total_versions := 0, version_list := []\<rparr>) =
     (w2\<lparr>nalloc := nalloc w2 + length (version_list repo)\<rparr>,
      repo\<lparr>version_list := rev (map cut_comment (version_list repo))\<rparr>, 0)"
proof -
  from save_metadata_text [OF assms(3,4)]
  have "files w1 (abs_path w1 (metadata_path repo)) = Some (meta_text repo)"
    by (simp add: abs_path_files)
  with assms(5) have "files w2 (abs_path w2 (metadata_path repo)) = Some (meta_text repo)"
    by simp
  then show ?thesis using assms(2,1,6) by (rule load_metadata_meta_text)
qed

text \<open>
  Claim C2, amended. Take a history whose records are storable (non-empty file name; no
  delimiter and no newline in file name and hash; no newline in the comment) and whose
  comments contain no delimiter, with \<open>total_versions\<close> an \<open>int\<close>. If
  \<open>save_metadata\<close> succeeds and no write falls short, then \<open>load_metadata\<close> into a
  fresh repository, reading that file with every allocation succeeding, returns 0 and
  yields exactly the records of the history, each with all its fields, as many times as
  it occurs there, together with the saved \<open>total_versions\<close>. The order of the
  loaded list is left open here.
\<close>

theorem load_metadata_save_metadata_same_records:
  assumes "list_all storable (version_list repo)"
    and "list_all (\<lambda>v. BAR \<notin> set (comment v)) (version_list repo)"
    and "int_range 32 (total_versions repo)"
    and "save_metadata w repo = (w1, 0)"
    and "quota w (abs_path w (metadata_path repo)) = None"
    and "files w2 (abs_path w2 (metadata_path repo)) = files w1 (abs_path w1 (metadata_path repo))"
    and "\<forall>k. heap_ok w2 k"
    and "load_metadata w2 (repo\<lparr>total_versions := 0, version_list := []\<rparr>) = (w3, repo1, rc)"
  shows "rc = 0 \<and> mset (version_list repo1) = mset (version_list repo) \<and>
         total_versions repo1 = total_versions repo \<and> base_path repo1 = base_path repo"
proof -
  from load_after_save [OF assms(1,3,4,5,6,7)] assms(8)
  have "rc = 0" and "repo1 = repo\<lparr>version_list := rev (map cut_comment (version_list repo))\<rparr>"
    by simp_all
  with map_cut_comment_plain [OF assms(2)] show ?thesis by simp
qed

section \<open>Consecutive version numbers\<close>

text \<open>
  Claim C1, amended. For a file name that fits the record (fewer than 256 characters)
  and a latest version below \<open>INT_MAX\<close>,
  a check-in that succeeds returns \<open>get_latest_version + 1\<close>, a positive number, and
  makes it the latest version of the file: successive check-ins in one process number
  the versions of a file 1, 2, 3 and so on. For a history of storable records, a
  successful \<open>save_metadata\<close> followed by \<open>load_metadata\<close> into a fresh repository
  (every allocation succeeding) keeps \<open>get_latest_version\<close> of every file name, so the
  next successful check-in after the restart returns the next number.
\<close>

theorem checkin_numbers_consecutive_and_kept:
  "(length fname < MAX_FILENAME_LEN \<and> get_latest_version repo fname < 2 ^ 31 - 1 \<and>
    checkin_file w repo fname cmt = (w1, repo1, n) \<and> n \<noteq> - 1 \<longrightarrow>
      n = get_latest_version repo fname + 1 \<and> 0 < n \<and> get_latest_version repo1 fname = n) \<and>
   (list_all storable (version_list repo) \<and> int_range 32 (total_versions repo) \<and>
    save_metadata w repo = (ws, 0) \<and> quota w (abs_path w (metadata_path repo)) = None \<and>
    files wr (abs_path wr (metadata_path repo)) = files ws (abs_path ws (metadata_path repo)) \<and>
    (\<forall>k. heap_ok wr k) \<and>
    load_metadata wr (repo\<lparr>total_versions := 0, version_list := []\<rparr>) = (wl, repo2, rc) \<longrightarrow>
      get_latest_version repo2 fname = get_latest_version repo fname \<and>
      (\<forall>wc cmt1 wd repo3 m.
         get_latest_version repo fname < 2 ^ 31 - 1 \<and>
         checkin_file wc repo2 fname cmt1 = (wd, repo3, m) \<and> m \<noteq> - 1 \<longrightarrow>
         m = get_latest_version repo fname + 1))"
proof (intro conjI impI)
  assume a: "length fname < MAX_FILENAME_LEN \<and> get_latest_version repo fname < 2 ^ 31 - 1 \<and>
    checkin_file w repo fname cmt = (w1, repo1, n) \<and> n \<noteq> - 1"
  then have c: "checkin_file w repo fname cmt = (w1, repo1, n)" and n: "n \<noteq> - 1"
    and len: "length fname < MAX_FILENAME_LEN"
    and fits: "get_latest_version repo fname < 2 ^ 31 - 1" by simp_all
  from checkin_file_success [OF c n] next_version_fits [OF fits] obtain nv where
    n1: "n = get_latest_version repo fname + 1"
    and r: "repo1 = repo\<lparr>version_list := nv # version_list repo,
                        total_versions := int_cast (total_versions repo + 1)\<rparr>"
    and f: "filename nv = strncpy (MAX_FILENAME_LEN - 1) fname" and v: "version_number nv = n"
    by auto
  show "n = get_latest_version repo fname + 1" by (rule n1)
  show "0 < n" using n1 get_latest_version_nonneg [of repo fname] by simp
  from f len have "filename nv = fname" by (simp add: strncpy_def)
  from get_latest_version_prepend [OF this, of repo] v n1 r
  show "get_latest_version repo1 fname = n" by simp
next
  assume b: "list_all storable (version_list repo) \<and> int_range 32 (total_versions repo) \<and>
    save_metadata w repo = (ws, 0) \<and> quota w (abs_path w (metadata_path repo)) = None \<and>
    files wr (abs_path wr (metadata_path repo)) = files ws (abs_path ws (metadata_path repo)) \<and>
    (\<forall>k. heap_ok wr k) \<and>
    load_metadata wr (repo\<lparr>total_versions := 0, version_list := []\<rparr>) = (wl, repo2, rc)"
  then have "load_metadata wr (repo\<lparr>total_versions := 0, version_list := []\<rparr>) =
     (wr\<lparr>nalloc := nalloc wr + length (version_list repo)\<rparr>,
      repo\<lparr>version_list := rev (map cut_comment (version_list repo))\<rparr>, 0)"
    by (intro load_after_save [of repo w ws wr]) simp_all
  with b have "repo2 = repo\<lparr>version_list := rev (map cut_comment (version_list repo))\<rparr>"
    by simp
  then have g: "get_latest_version repo2 fname = get_latest_version repo fname"
    by (simp add: get_latest_version_reloaded)
  then show "get_latest_version repo2 fname = get_latest_version repo fname" .
  show "\<forall>wc cmt1 wd repo3 m.
         get_latest_version repo fname < 2 ^ 31 - 1 \<and>
         checkin_file wc repo2 fname cmt1 = (wd, repo3, m) \<and> m \<noteq> - 1 \<longrightarrow>
         m = get_latest_version repo fname + 1"
  proof (intro allI impI)
    fix wc cmt1 wd repo3 m
    assume h: "get_latest_version repo fname < 2 ^ 31 - 1 \<and>
         checkin_file wc repo2 fname cmt1 = (wd, repo3, m) \<and> m \<noteq> - 1"
    then have "m = int_cast (get_latest_version repo2 fname + 1)"
      using checkin_file_success [of wc repo2 fname cmt1 wd repo3 m] by simp
    with g h next_version_fits [of repo fname] show "m = get_latest_version repo fname + 1"
      by simp
  qed
qed

section \<open>What the fingerprint depends on\<close>

lemma length_fmt_x: "0 < k \<Longrightarrow> n < 16 ^ k \<Longrightarrow> length (fmt_x n) \<le> k"
proof (induction k arbitrary: n)
  case 0
  then show ?case by simp
next
  case (Suc k)
  show ?case
  proof (cases "n < 16")
    case True
    then show ?thesis by (simp add: fmt_x.simps [of n])
  next
    case False
    with Suc.prems have k: "0 < k" by (cases k) auto
    from Suc.prems have "n div 16 < 16 ^ k" by (simp add: less_mult_imp_div_less mult.commute)
    from Suc.IH [OF k this] False show ?thesis by (simp add: fmt_x.simps [of n])
  qed
qed

lemma length_fmt_08lx: "length (fmt_08lx h) \<le> 16"
proof -
  have "unat h < 2 ^ 64" using unsigned_less [of h] by simp
  then have "unat h < 16 ^ 16" by simp
  then have "length (fmt_x (unat h)) \<le> 16" by (intro length_fmt_x) simp_all
  then show ?thesis by (simp add: fmt_08lx_def Let_def)
qed

lemma c_rem_small: "\<bar>c_rem t 10000\<bar> < 10 ^ 4"
proof -
  have "\<bar>c_rem t 10000\<bar> = \<bar>sgn t\<bar> * (\<bar>t\<bar> mod 10000)"
    by (simp add: c_rem_def abs_mult)
  also have "\<dots> \<le> \<bar>t\<bar> mod 10000" by (simp add: abs_sgn_eq)
  also have "\<dots> < 10000" by simp
  finally show ?thesis by simp
qed

lemma length_time_suffix: "length (fmt_d (c_rem t 10000)) \<le> 5"
  using length_fmt_d [of 4 "c_rem t 10000"] c_rem_small [of t] by simp

lemma generate_file_hash_value:
  assumes "fopen_r w filepath" and "heap_ok w (nalloc w)"
  shows "fst (generate_file_hash w filepath) =
     Some (fmt_08lx (content_hash w filepath) @ fmt_d (c_rem (clock w) 10000))"
proof -
  have "length (fmt_08lx (content_hash w filepath) @ fmt_d (c_rem (clock w) 10000)) \<le> 63"
    using length_fmt_08lx [of "content_hash w filepath"] length_time_suffix [of "clock w"]
    by simp
  then have "snprintf MAX_HASH_LEN (fmt_08lx (content_hash w filepath) @ fmt_d (c_rem (clock w) 10000)) =
      fmt_08lx (content_hash w filepath) @ fmt_d (c_rem (clock w) 10000)"
    by (simp add: snprintf_def MAX_HASH_LEN_def)
  with assms show ?thesis
    by (simp add: generate_file_hash_def malloc_def content_hash_def Let_def split: option.splits)
qed

text \<open>
  Claim C8, amended. The fingerprint is not a function of the content alone: when the
  source can be opened and the allocation succeeds, \<open>generate_file_hash\<close> returns the
  djb2 value of content and size in hexadecimal followed by the wall-clock time modulo
  10000. Two fingerprints of byte-identical content (same bytes, same size) are
  therefore different exactly when the two times differ modulo 10000; taken in the
  same second, or 10000 seconds apart, they are equal.
\<close>

theorem fingerprints_differ_iff_times_differ_mod_10000:
  assumes "fopen_r w1 f1" and "fopen_r w2 f2"
    and "contents w1 f1 = contents w2 f2" and "stat w1 f1 = stat w2 f2"
    and "heap_ok w1 (nalloc w1)" and "heap_ok w2 (nalloc w2)"
  shows "fst (generate_file_hash w1 f1) = fst (generate_file_hash w2 f2) \<longleftrightarrow>
         c_rem (clock w1) 10000 = c_rem (clock w2) 10000"
proof -
  have "content_hash w1 f1 = content_hash w2 f2"
    unfolding content_hash_def assms(3,4) ..
  then show ?thesis
    by (simp add: generate_file_hash_value [OF assms(1,5)] generate_file_hash_value [OF assms(2,6)]
          fmt_d_inj)
qed

theorem fingerprints_differ_iff_times_differ_mod_10000_witness:
  "fst (generate_file_hash sample_world ''a.txt'') =
     fst (generate_file_hash (sample_world\<lparr>clock := 10100\<rparr>) ''a.txt'') \<and>
   fst (generate_file_hash sample_world ''a.txt'') \<noteq>
     fst (generate_file_hash (sample_world\<lparr>clock := 101\<rparr>) ''a.txt'')"
proof -
  have o: "fopen_r sample_world ''a.txt''" "fopen_r (sample_world\<lparr>clock := 10100\<rparr>) ''a.txt''"
    "fopen_r (sample_world\<lparr>clock := 101\<rparr>) ''a.txt''"
    by (simp_all add: fopen_r_def abs_path_def sample_world_def)
  have c: "contents sample_world ''a.txt'' = contents (sample_world\<lparr>clock := 10100\<rparr>) ''a.txt''"
    "contents sample_world ''a.txt'' = contents (sample_world\<lparr>clock := 101\<rparr>) ''a.txt''"
    by (simp_all add: contents_def abs_path_def)
  have s: "stat sample_world ''a.txt'' = stat (sample_world\<lparr>clock := 10100\<rparr>) ''a.txt''"
    "stat sample_world ''a.txt'' = stat (sample_world\<lparr>clock := 101\<rparr>) ''a.txt''"
    by (simp_all add: stat_def abs_path_def Let_def)
  have h: "heap_ok sample_world (nalloc sample_world)"
    "heap_ok (sample_world\<lparr>clock := 10100\<rparr>) (nalloc (sample_world\<lparr>clock := 10100\<rparr>))"
    "heap_ok (sample_world\<lparr>clock := 101\<rparr>) (nalloc (sample_world\<lparr>clock := 101\<rparr>))"
    by (simp_all add: sample_world_def)
  have t: "clock sample_world = 100" by (simp add: sample_world_def)
  from fingerprints_differ_iff_times_differ_mod_10000 [OF o(1) o(2) c(1) s(1) h(1) h(2)]
    fingerprints_differ_iff_times_differ_mod_10000 [OF o(1) o(3) c(2) s(2) h(1) h(3)] t
  show ?thesis by (simp add: c_rem_def)
qed

section \<open>What a successful copy leaves behind\<close>











section \<open>Rollback\<close>




section \<open>Evaluating the operations on concrete states\<close>

text \<open>
  The recursive equations are instantiated to literals, so that the simplifier unfolds
  them only where the test they start with can be decided.
\<close>

lemmas fmt_u_eval = fmt_u.simps [of 0] fmt_u.simps [of "Suc 0"] fmt_u.simps [of 1] fmt_u.simps [of "numeral k"] for k
lemmas fmt_x_eval = fmt_x.simps [of 0] fmt_x.simps [of "Suc 0"] fmt_x.simps [of 1] fmt_x.simps [of "numeral k"] for k
lemmas chunks_eval = chunks.simps [of n "[]"] chunks.simps [of n "c # cs"] for n c cs
lemmas load_loop_eval = load_loop.simps [of w repo "[]"] load_loop.simps [of w repo "c # cs"]
  for w repo c cs

lemmas libc_eval = NL_def NUL_def BAR_def c_str_def strncpy_def snprintf_def starts_with_def
  isspace_def isdigit_def digit_val_def digit_char_def digits_val_def strtol_digits_def
  strtol_def int_cast_def atoi_def atol_def
  fmt_u_eval fmt_d_def hex_char_def fmt_x_eval fmt_08lx_def c_rem_def fgets_def strtok_def

lemmas world_eval = abs_path_def malloc_def mkdir_def fopen_r_def fopen_w_def contents_def
  fwrite_def fprintf_def stat_def st_size_def file_exists_def

lemmas vcs_eval = MAX_PATH_LEN_def MAX_FILENAME_LEN_def MAX_COMMENT_LEN_def MAX_HASH_LEN_def
  VCS_DIR_def METADATA_FILE_def metadata_path_def record_line_def save_metadata_def field_def
  parse_record_def load_line_def load_loop_eval load_metadata_def find_file_version_def
  get_latest_version_def djb2_step_def djb2_def generate_file_hash_def chunks_eval
  copy_file_def base_name_def version_dir_of_def version_file_of_def create_version_file_def
  restore_path_def restore_version_file_def init_repository_def load_repository_def
  repository_exists_def checkin_file_def checkout_file_def list_versions_def
  rollback_to_version_def

lemmas sample_eval = sample_world_def sample_repo_def sample_block_def unsaved_world_def
  partial_meta_world_def fresh_repo_def two_repo_def two_meta_def two_world_def

lemma second_checkin:
  "checkin_file sample_world sample_repo ''a.txt'' ''second'' = (two_world, two_repo, 2)"
  by (simp add: libc_eval world_eval vcs_eval sample_eval)

section \<open>Failures of the metadata store during check-in\<close>

text \<open>
  Claim C7. Check-in on a project whose \<open>versions.meta\<close> cannot be opened for writing:
  \<open>save_metadata\<close> on the state that check-in hands to it returns -1 and no metadata
  file exists afterwards, yet \<open>checkin_file\<close> returns the new version number 2, which
  its caller reads as success. The result of \<open>save_metadata\<close> is dropped.
\<close>

theorem checkin_file_reports_success_when_save_fails:
  "snd (snd (checkin_file unsaved_world sample_repo ''a.txt'' ''second'')) = 2 \<and>
   snd (save_metadata (fst (checkin_file unsaved_world sample_repo ''a.txt'' ''second''))
          (fst (snd (checkin_file unsaved_world sample_repo ''a.txt'' ''second'')))) = - 1 \<and>
   files (fst (checkin_file unsaved_world sample_repo ''a.txt'' ''second''))
     ''/p/.vcs/versions.meta'' = None"
  by (simp add: libc_eval world_eval vcs_eval sample_eval)

section \<open>Loading metadata\<close>

lemma load_metadata_returns_0: "snd (snd (load_metadata w repo)) = 0"
  by (simp add: load_metadata_def Let_def split: prod.splits)

lemma load_metadata_no_file:
  "\<not> fopen_r w (metadata_path repo) \<Longrightarrow> load_metadata w repo = (w, repo, 0)"
  by (simp add: load_metadata_def)

lemma load_line_unrecognized:
  "\<not> starts_with ''TOTAL_VERSIONS='' line \<Longrightarrow> \<not> starts_with ''FILE='' line \<Longrightarrow>
     load_line w repo line = (w, repo)"
  by (simp add: load_line_def)

text \<open>
  Claim C5. The load never fails and skips what it does not recognise (the three lemmas
  above), but a \<open>FILE=\<close> line that lacks fields does not give them a default: the
  record is the block \<open>malloc\<close> returned with only the fields that were found
  overwritten. On the line \<open>FILE=a.txt|VERSION=3\<close> the time stamp, the size, the hash
  and the comment are those of the uninitialised block (42 and \<open>?\<close> in the sample
  allocator), not zero and not empty.
\<close>

theorem load_metadata_missing_fields_keep_block_contents:
  "snd (load_metadata partial_meta_world fresh_repo) =
     (\<lparr>base_path = ''/p'', total_versions = 0,
       version_list = [sample_block\<lparr>filename := ''a.txt'', version_number := 3\<rparr>]\<rparr>, 0) \<and>
   timestamp (sample_block\<lparr>filename := ''a.txt'', version_number := 3\<rparr>) = 42 \<and>
   file_size (sample_block\<lparr>filename := ''a.txt'', version_number := 3\<rparr>) = 42 \<and>
   hash (sample_block\<lparr>filename := ''a.txt'', version_number := 3\<rparr>) = ''?'' \<and>
   comment (sample_block\<lparr>filename := ''a.txt'', version_number := 3\<rparr>) = ''?''"
  by (simp add: libc_eval world_eval vcs_eval sample_eval)


section \<open>Listing versions\<close>

text \<open>
  Claim C4. After the second check-in the list shows version 2 before version 1. The
  metadata file holds the records in that order, and \<open>load_metadata\<close> puts each line it
  reads in front of the ones read before, so the repository rebuilt from disk lists
  version 1 before version 2: the oldest version comes first.
\<close>

theorem list_versions_oldest_first_after_reload:
  "(case checkin_file sample_world sample_repo ''a.txt'' ''second'' of
      (w, r, n) \<Rightarrow>
        (map fst (fst (list_versions r ''a.txt'')),
         case load_repository w ''/p'' of
           (w1, r1) \<Rightarrow> map_option (\<lambda>r. map fst (fst (list_versions r ''a.txt''))) r1)) =
   ([2, 1], Some [1, 2])"
  unfolding second_checkin
  by (simp add: libc_eval world_eval vcs_eval sample_eval)


section \<open>The fingerprint\<close>

text \<open>
  Claim C8 as stated fails: the sample file is checked in at time 100 and, unchanged,
  again at time 10100. The two records carry the time stamps 100 and 10100 and the same
  hash string.
\<close>

theorem equal_hashes_for_two_checkins_counterexample:
  "(case checkin_file sample_world sample_repo ''a.txt'' ''second'' of
      (w, r, n) \<Rightarrow>
        (case checkin_file (w\<lparr>clock := 10100\<rparr>) r ''a.txt'' ''third'' of
           (w1, r1, n1) \<Rightarrow>
             (n, n1, map timestamp (version_list r1), map hash (version_list r1)))) =
   (2, 3, [10100, 100, 50], [''0b887ad8100'', ''0b887ad8100'', ''17c9bc5e750''])"
  unfolding second_checkin
  by (simp add: libc_eval world_eval vcs_eval sample_eval)

section \<open>Check-in of a file that is not there\<close>


section \<open>The round trip and the numbering on concrete states\<close>

lemmas more_eval = bar_world_def bar_repo_def bar_saved_world_def bar_loaded_repo_def newline_repo_def

lemma save_metadata_written:
  assumes "fopen_w w (metadata_path repo) \<noteq> None"
    and "quota w (abs_path w (metadata_path repo)) = None"
  shows "save_metadata w repo =
     (w\<lparr>files := (files w)(abs_path w (metadata_path repo) \<mapsto> meta_text repo)\<rparr>, 0)"
proof -
  from assms(1) have "snd (save_metadata w repo) = 0" by (simp add: save_metadata_result)
  then have s: "save_metadata w repo = (fst (save_metadata w repo), 0)"
    by (simp add: prod_eq_iff)
  from save_metadata_text [OF s assms(2)] s show ?thesis by simp
qed

lemma sample_meta_path:
  "abs_path sample_world (metadata_path r) =
     (if take 1 (take 511 (base_path r @ ''/.vcs/versions.meta'')) = ''/''
      then take 511 (base_path r @ ''/.vcs/versions.meta'')
      else ''/p/'' @ take 511 (base_path r @ ''/.vcs/versions.meta''))"
  by (simp add: abs_path_def metadata_path_def snprintf_def MAX_PATH_LEN_def VCS_DIR_def
        METADATA_FILE_def sample_world_def)

lemma sample_save:
  "base_path r = ''/p'' \<Longrightarrow>
   save_metadata sample_world r =
     (sample_world\<lparr>files := (files sample_world)(''/p/.vcs/versions.meta'' \<mapsto> meta_text r)\<rparr>, 0)"
proof -
  assume b: "base_path r = ''/p''"
  then have p: "abs_path sample_world (metadata_path r) = ''/p/.vcs/versions.meta''"
    by (simp add: sample_meta_path)
  have "fopen_w sample_world (metadata_path r) \<noteq> None"
    by (simp add: fopen_w_def p Let_def) (simp add: sample_world_def)
  moreover have "quota sample_world (abs_path sample_world (metadata_path r)) = None"
    by (simp add: sample_world_def)
  ultimately show ?thesis using save_metadata_written [of sample_world r] p by simp
qed

text \<open>
  Claim C2 as stated fails: the comment of this one-record history contains no
  delimiter, yet the history that comes back differs from it. The second line of the
  comment is read as a line of its own and skipped, and the loaded comment is \<open>two\<close>.
\<close>

theorem comment_with_newline_counterexample:
  "list_all (\<lambda>v. BAR \<notin> set (comment v)) (version_list newline_repo) \<and>
   (case save_metadata sample_world newline_repo of
      (w, rc) \<Rightarrow>
        (case load_metadata w (newline_repo\<lparr>total_versions := 0, version_list := []\<rparr>) of
           (w1, r, rc1) \<Rightarrow>
             (rc, rc1, version_list r = version_list newline_repo, map comment (version_list r)))) =
   (0, 0, False, [''two''])"
proof -
  have b: "base_path newline_repo = ''/p''" by (simp add: newline_repo_def)
  show ?thesis
    unfolding sample_save [OF b] prod.case
    by (simp add: meta_text_def meta_header_def libc_eval world_eval vcs_eval sample_eval more_eval)
qed


lemma two_repo_storable: "list_all storable (version_list two_repo)"
  by (simp add: two_repo_def storable_def valid_FileVersion_def c_string_def int_range_def
        MAX_FILENAME_LEN_def MAX_HASH_LEN_def MAX_COMMENT_LEN_def BAR_def NL_def NUL_def)

theorem load_metadata_save_metadata_same_records_witness:
  "mset (version_list (fst (snd (load_metadata
       (sample_world\<lparr>files := (files sample_world)(''/p/.vcs/versions.meta'' \<mapsto> meta_text two_repo)\<rparr>)
       (two_repo\<lparr>total_versions := 0, version_list := []\<rparr>))))) =
   mset (version_list two_repo)"
proof -
  let ?w1 = "sample_world\<lparr>files := (files sample_world)(''/p/.vcs/versions.meta'' \<mapsto> meta_text two_repo)\<rparr>"
  let ?l = "load_metadata ?w1 (two_repo\<lparr>total_versions := 0, version_list := []\<rparr>)"
  have 2: "list_all (\<lambda>v. BAR \<notin> set (comment v)) (version_list two_repo)"
    by (simp add: two_repo_def BAR_def)
  have 3: "int_range 32 (total_versions two_repo)"
    by (simp add: two_repo_def int_range_def)
  have 4: "save_metadata sample_world two_repo = (?w1, 0)"
    by (rule sample_save) (simp add: two_repo_def)
  have 5: "quota sample_world (abs_path sample_world (metadata_path two_repo)) = None"
    by (simp add: sample_world_def)
  have 6: "files ?w1 (abs_path ?w1 (metadata_path two_repo)) =
           files ?w1 (abs_path ?w1 (metadata_path two_repo))" ..
  have 7: "\<forall>k. heap_ok ?w1 k" by (simp add: sample_world_def)
  have 8: "?l = (fst ?l, fst (snd ?l), snd (snd ?l))" by simp
  from load_metadata_save_metadata_same_records [OF two_repo_storable 2 3 4 5 6 7 8]
  show ?thesis by simp
qed

lemma sample_repo_storable: "list_all storable (version_list sample_repo)"
  by (simp add: sample_repo_def storable_def valid_FileVersion_def c_string_def int_range_def
        MAX_FILENAME_LEN_def MAX_HASH_LEN_def MAX_COMMENT_LEN_def BAR_def NL_def NUL_def)

theorem checkin_numbers_consecutive_and_kept_witness:
  "get_latest_version sample_repo ''a.txt'' + 1 = 2 \<and>
   get_latest_version two_repo ''a.txt'' = 2 \<and>
   get_latest_version (fst (snd (load_metadata
       (sample_world\<lparr>files := (files sample_world)(''/p/.vcs/versions.meta'' \<mapsto> meta_text sample_repo)\<rparr>)
       (sample_repo\<lparr>total_versions := 0, version_list := []\<rparr>)))) ''a.txt'' =
     get_latest_version sample_repo ''a.txt''"
proof -
  let ?ws = "sample_world\<lparr>files := (files sample_world)(''/p/.vcs/versions.meta'' \<mapsto> meta_text sample_repo)\<rparr>"
  let ?l = "load_metadata ?ws (sample_repo\<lparr>total_versions := 0, version_list := []\<rparr>)"
  have a: "length ''a.txt'' < MAX_FILENAME_LEN \<and>
           get_latest_version sample_repo ''a.txt'' < 2 ^ 31 - 1 \<and>
           checkin_file sample_world sample_repo ''a.txt'' ''second'' = (two_world, two_repo, 2) \<and>
           (2::int) \<noteq> - 1"
  proof -
    have "get_latest_version sample_repo ''a.txt'' < 2 ^ 31 - 1"
      by (simp add: get_latest_version_def sample_repo_def)
    then show ?thesis by (simp add: MAX_FILENAME_LEN_def second_checkin)
  qed
  have b: "list_all storable (version_list sample_repo) \<and> int_range 32 (total_versions sample_repo) \<and>
    save_metadata sample_world sample_repo = (?ws, 0) \<and>
    quota sample_world (abs_path sample_world (metadata_path sample_repo)) = None \<and>
    files ?ws (abs_path ?ws (metadata_path sample_repo)) =
      files ?ws (abs_path ?ws (metadata_path sample_repo)) \<and>
    (\<forall>k. heap_ok ?ws k) \<and>
    load_metadata ?ws (sample_repo\<lparr>total_versions := 0, version_list := []\<rparr>) =
      (fst ?l, fst (snd ?l), snd (snd ?l))"
    using sample_repo_storable sample_save [of sample_repo]
    by (simp add: sample_repo_def int_range_def) (simp add: sample_world_def)
  note t = checkin_numbers_consecutive_and_kept
         [of "''a.txt''" sample_repo sample_world "''second''" two_world two_repo 2
             ?ws ?ws "fst ?l" "fst (snd ?l)" "snd (snd ?l)"]
  from conjunct1 [OF t, THEN mp, OF a]
  have 1: "2 = get_latest_version sample_repo ''a.txt'' + 1"
    and 2: "get_latest_version two_repo ''a.txt'' = 2" by simp_all
  from conjunct2 [OF t, THEN mp, OF b]
  have 3: "get_latest_version (fst (snd ?l)) ''a.txt'' = get_latest_version sample_repo ''a.txt''"
    by (rule conjunct1)
  from 1 2 3 show ?thesis by simp
qed

text \<open>
  Claim C1 as stated fails for the file name \<open>a|b\<close>: its first check-in gets version
  1; the record line is split at the delimiter inside the name, so the repository
  loaded by the next process knows no version of \<open>a|b\<close>, and the next check-in gets
  version 1 again.
\<close>

lemma bar_checkin:
  "checkin_file bar_world fresh_repo ''a|b'' ''one'' = (bar_saved_world, bar_repo, 1)"
  by (simp add: libc_eval world_eval vcs_eval sample_eval more_eval)

lemma bar_reload:
  "load_repository bar_saved_world ''/p'' = (bar_saved_world\<lparr>nalloc := 4\<rparr>, Some bar_loaded_repo)"
  by (simp add: libc_eval world_eval vcs_eval sample_eval more_eval)

theorem version_number_repeats_after_restart_counterexample:
  "(case checkin_file bar_world fresh_repo ''a|b'' ''one'' of
      (w, r, n) \<Rightarrow>
        (case load_repository w ''/p'' of
           (w1, r1) \<Rightarrow>
             map_option
               (\<lambda>r2. (n, get_latest_version r ''a|b'', get_latest_version r2 ''a|b'',
                      snd (snd (checkin_file w1 r2 ''a|b'' ''two'')))) r1)) =
   Some (1, 1, 0, 1)"
  unfolding bar_checkin prod.case bar_reload
  by (simp add: libc_eval world_eval vcs_eval sample_eval more_eval)

section \<open>Rollback on concrete states\<close>





end
